theory Spec2Isabelle
  imports Main
begin

section \<open>The colour-contrast audit (lighthouse-core/audits/color-contrast.js)\<close>

text \<open>
  A violation reported by the accessibility gatherer. Only the three fields that the
  audit reads are kept: \<open>id\<close> (here \<open>rule_id\<close>), \<open>help\<close> (here \<open>rule_help\<close>) and
  \<open>nodes\<close>. The nodes are opaque; only their number is read.
\<close>

record 'n rule =
  rule_id :: string
  rule_help :: string
  nodes :: "'n list"

text \<open>
  \<open>artifacts.Accessibility.violations\<close> may be absent (\<open>undefined\<close>, which
  \<open>|| []\<close> replaces by the empty array). The artifact \<open>Accessibility\<close> itself is
  listed in \<open>requiredArtifacts\<close> and is always present.
\<close>

record 'n accessibility =
  violations :: "'n rule list option"

record 'n artifacts =
  Accessibility :: "'n accessibility"

text \<open>
  The result of the audit. \<open>generateAuditResult\<close> belongs to the base class \<open>Audit\<close>,
  which is outside the sources; the result is taken to carry the fields \<open>rawValue\<close>,
  \<open>debugString\<close> and \<open>extendedInfo.value\<close> of the object handed to it. The formatter
  constant is left out.
\<close>

record 'n audit_result =
  rawValue :: bool
  debugString :: string
  extendedInfo_value :: "'n rule option"

text \<open>Decimal rendering of a length inside a template literal.\<close>

definition digit_char :: "nat \<Rightarrow> char" where
  "digit_char d = ''0123456789'' ! d"

fun show_nat :: "nat \<Rightarrow> string" where
  "show_nat n = (if n < 10 then [digit_char n] else show_nat (n div 10) @ [digit_char (n mod 10)])"

definition createDebugString :: "'n rule option \<Rightarrow> string" where
  "createDebugString r =
     (case r of
        None \<Rightarrow> ''''
      | Some v \<Rightarrow>
          (let elementsStr = (if length (nodes v) = 1 then ''element'' else ''elements'')
           in rule_help v @ '' (Failed on '' @ show_nat (length (nodes v)) @ '' '' @ elementsStr @ '')''))"

definition audit :: "'n artifacts \<Rightarrow> 'n audit_result" where
  "audit a =
     (let vs = (case violations (Accessibility a) of None \<Rightarrow> [] | Some l \<Rightarrow> l);
          r = find (\<lambda>result. rule_id result = ''color-contrast'') vs
      in \<lparr> rawValue = (r = None), debugString = createDebugString r, extendedInfo_value = r \<rparr>)"

section \<open>The command line runner\<close>

subsection \<open>Failures, console output and exit codes\<close>

definition SIGINT :: string where
  "SIGINT = ''SIGINT''"

definition ERROR_EXIT_CODE :: nat where
  "ERROR_EXIT_CODE = 130"

definition RUNTIME_ERROR_CODE :: nat where
  "RUNTIME_ERROR_CODE = 1"

definition PROTOCOL_TIMEOUT_EXIT_CODE :: nat where
  "PROTOCOL_TIMEOUT_EXIT_CODE = 67"

text \<open>\<open>interface LightHouseError extends Error { code?: string }\<close>\<close>

record LightHouseError =
  code :: "string option"
  message :: string
  stack :: "string option"

text \<open>
  What a promise is rejected with: the string that the interrupt listener passes to
  \<open>reject\<close>, or an error object.
\<close>

datatype reason = Str string | Err LightHouseError

fun code_of :: "reason \<Rightarrow> string option" where
  "code_of (Str s) = None"
| "code_of (Err e) = code e"

fun stack_of :: "reason \<Rightarrow> string option" where
  "stack_of (Str s) = None"
| "stack_of (Err e) = stack e"

datatype arg = S string | V reason | Undef

text \<open>
  The operations of the collaborators that the runner starts, and the observable
  events of a run. \<open>Start\<close> is the call of an operation, \<open>End\<close> the moment the
  runner's continuation sees it settled. The calls of \<open>log.verbose\<close> and \<open>log.log\<close>
  are not recorded.
\<close>

datatype op =
    Listen
  | IsDebuggerReady
  | LauncherRun
  | LauncherKill
  | Lighthouse string
  | Write string string

datatype event =
    Start op
  | End op
  | CreateServer
  | CloseServer
  | OnSigint
  | NewLauncher int bool
  | Register
  | ConsoleError "arg list"
  | Exit nat

text \<open>
  How a run ends. \<open>Completed\<close>: the promise of \<open>run\<close> is fulfilled and no
  \<open>process.exit\<close> was called. \<open>Exited c\<close>: the program called \<open>process.exit(c)\<close>.
  \<open>Unhandled e\<close>: the promise of \<open>run\<close> is rejected with \<open>e\<close>. \<open>Hangs\<close>: it never
  settles, and the program calls nothing more. \<open>DefaultSigint\<close>: the interrupt arrived
  while no listener of this program was installed, so none of its code handles it; what
  the runtime then does with the signal is not the program's doing. \<open>Uncaught e\<close>: an
  emitter emitted the error \<open>e\<close> while the program had no listener for it, which the
  runtime throws as an uncaught exception; again none of the program's code handles it.
\<close>

datatype outcome =
  Completed | Exited nat | Unhandled reason | Hangs | DefaultSigint | Uncaught reason

datatype 'a settle = Fulfils 'a | Rejects reason | Never

text \<open>
  What the runner sees of an awaited operation: it was fulfilled, it was rejected, it
  never settles (\<open>Pend\<close>), the interrupt fired first (\<open>Intr\<close>), or an error was
  emitted for which nobody listens (\<open>Thrown\<close>).
\<close>

datatype 'a res = Ok 'a | Rej reason | Pend | Intr | Thrown reason

text \<open>
  What happens after \<open>server.listen(0)\<close>: the \<open>listening\<close> event fires and
  \<open>server.address().port\<close> is the given port; or the server emits \<open>error\<close>, as it does
  when no port can be allocated; or neither.
\<close>

datatype listen_event = Listening int | ErrorEvent reason | NoEvent

record cliFlags =
  urls :: "string list"
  port :: int
  skipAutolaunch :: bool
  selectChrome :: bool
  outputMode :: string
  outputPath :: string
  logLevel :: string

datatype closure = KillLauncher

text \<open>
  The state of a run: the outside world \<open>world\<close> that the collaborators act on, the
  flags object (whose field \<open>urls\<close> is the array \<open>cliFlags._\<close>, shared with the module
  constant \<open>urls\<close>), the functions held by \<open>cleanup.fns\<close>, the events so far, and
  the interrupt still to come: \<open>sigint = Some k\<close> says that the interrupt signal fires
  while the run waits for its \<open>(k+1)\<close>-th awaited operation (or while it waits for
  ever); \<open>None\<close> that no interrupt is to come. The pipeline that loses the race is
  not cancelled; what it still does between the interrupt and the exit is not recorded.
\<close>

record 'w st =
  world :: 'w
  flags :: cliFlags
  fns :: "closure list"
  trace :: "event list"
  sigint :: "nat option"

text \<open>
  The collaborators, as functions on the outside world. \<open>server_listen\<close> answers
  \<open>server.listen(0)\<close>.
  Every operation is taken to return a promise: \<open>Fulfils\<close>, \<open>Rejects\<close>, or \<open>Never\<close>
  when it does not settle. \<open>OutputMode_pretty\<close> is the string
  \<open>Printer.OutputMode[Printer.OutputMode.pretty]\<close> and \<open>getFilenamePrefix\<close> the function
  of the asset saver, applied to \<open>{url: address}\<close>; both modules are outside the sources
  and are parameters here, the second as a function of the address alone, which is what
  the specification says of it.
\<close>

record ('w, 'r) env =
  server_listen :: "'w \<Rightarrow> listen_event \<times> 'w"
  isDebuggerReady :: "'w \<Rightarrow> unit settle \<times> 'w"
  launcher_run :: "'w \<Rightarrow> unit settle \<times> 'w"
  launcher_kill :: "'w \<Rightarrow> unit settle \<times> 'w"
  lighthouse :: "string \<Rightarrow> cliFlags \<Rightarrow> 'w \<Rightarrow> 'r settle \<times> 'w"
  Printer_write :: "'r \<Rightarrow> string \<Rightarrow> string \<Rightarrow> 'w \<Rightarrow> 'r settle \<times> 'w"
  OutputMode_pretty :: string
  getFilenamePrefix :: "string \<Rightarrow> string"

definition showConnectionError :: "'w st \<Rightarrow> outcome \<times> 'w st" where
  "showConnectionError st =
     (Exited RUNTIME_ERROR_CODE,
      st\<lparr>trace := trace st @
        [ConsoleError [S ''Unable to connect to Chrome''],
         ConsoleError [S (''If you'' @ [CHR 0x27] @ ''re using lighthouse with --skip-autolaunch, '' @
                          ''make sure you'' @ [CHR 0x27] @ ''re running some other Chrome with a debugger.'')],
         Exit RUNTIME_ERROR_CODE]\<rparr>)"

definition showRuntimeError :: "reason \<Rightarrow> 'w st \<Rightarrow> outcome \<times> 'w st" where
  "showRuntimeError err st =
     (Exited RUNTIME_ERROR_CODE,
      st\<lparr>trace := trace st @
        [ConsoleError [S ''Runtime error encountered:'', V err]] @
        (case stack_of err of
           None \<Rightarrow> []
         | Some s \<Rightarrow> if s = [] then [] else [ConsoleError [S s]]) @
        [Exit RUNTIME_ERROR_CODE]\<rparr>)"

definition showProtocolTimeoutError :: "'w st \<Rightarrow> outcome \<times> 'w st" where
  "showProtocolTimeoutError st =
     (Exited PROTOCOL_TIMEOUT_EXIT_CODE,
      st\<lparr>trace := trace st @
        [ConsoleError [S ''Debugger protocol timed out while connecting to Chrome.''],
         Exit PROTOCOL_TIMEOUT_EXIT_CODE]\<rparr>)"

definition handleError :: "reason \<Rightarrow> 'w st \<Rightarrow> outcome \<times> 'w st" where
  "handleError err st =
     (if code_of err = Some ''ECONNREFUSED'' then showConnectionError st
      else if code_of err = Some ''CRI_TIMEOUT'' then showProtocolTimeoutError st
      else showRuntimeError err st)"

subsection \<open>Awaited and unawaited calls\<close>

text \<open>
  \<open>await\<close> is a call whose promise the runner chains on: the operation starts, and
  the continuation runs once it has settled, unless the interrupt fires first.
  \<open>fire\<close> is a call whose promise is dropped.
\<close>

definition await :: "op \<Rightarrow> ('w \<Rightarrow> 'a settle \<times> 'w) \<Rightarrow> 'w st \<Rightarrow> 'a res \<times> 'w st" where
  "await opn f st =
     (case f (world st) of
        (s, w) \<Rightarrow>
          (let st1 = st\<lparr>world := w, trace := trace st @ [Start opn]\<rparr>
           in if sigint st = Some 0 then (Intr, st1\<lparr>sigint := None\<rparr>)
              else (case s of
                      Never \<Rightarrow> (if sigint st = None then Pend else Intr, st1\<lparr>sigint := None\<rparr>)
                    | Fulfils v \<Rightarrow>
                        (Ok v, st1\<lparr>trace := trace st1 @ [End opn],
                                   sigint := map_option (\<lambda>k. k - 1) (sigint st)\<rparr>)
                    | Rejects e \<Rightarrow>
                        (Rej e, st1\<lparr>trace := trace st1 @ [End opn],
                                    sigint := map_option (\<lambda>k. k - 1) (sigint st)\<rparr>))))"

definition fire :: "op \<Rightarrow> ('w \<Rightarrow> 'a settle \<times> 'w) \<Rightarrow> 'w st \<Rightarrow> 'w st" where
  "fire opn f st =
     (case f (world st) of (s, w) \<Rightarrow> st\<lparr>world := w, trace := trace st @ [Start opn]\<rparr>)"

subsection \<open>The cleanup registry\<close>

text \<open>
  What calling a registered function does: it throws, or it returns a promise. The
  number is the tick at which that promise settles; \<open>Promise.all\<close> is rejected with
  the reason of the promise that is rejected first.
\<close>

datatype behaviour = Throws reason | Returns nat "unit settle"

datatype cleanup_result = Threw reason | Settles "unit settle"

definition register :: "closure \<Rightarrow> 'w st \<Rightarrow> 'w st" where
  "register fn st = st\<lparr>fns := fns st @ [fn]\<rparr>"

text \<open>\<open>this.fns.map((c) => c())\<close>: the calls in order, up to the first that throws.\<close>

fun map_call ::
  "('c \<Rightarrow> 's \<Rightarrow> behaviour \<times> 's) \<Rightarrow> 'c list \<Rightarrow> 's \<Rightarrow> (reason + (nat \<times> unit settle) list) \<times> 'c list \<times> 's"
where
  "map_call call [] s = (Inr [], [], s)"
| "map_call call (c # cs) s =
     (case call c s of
        (Throws e, s1) \<Rightarrow> (Inl e, [c], s1)
      | (Returns t p, s1) \<Rightarrow>
          (case map_call call cs s1 of
             (Inl e, called, s2) \<Rightarrow> (Inl e, c # called, s2)
           | (Inr ps, called, s2) \<Rightarrow> (Inr ((t, p) # ps), c # called, s2)))"

fun first_rejection :: "(nat \<times> unit settle) list \<Rightarrow> (nat \<times> reason) option" where
  "first_rejection [] = None"
| "first_rejection ((t, Rejects e) # ps) =
     (case first_rejection ps of
        None \<Rightarrow> Some (t, e)
      | Some (t', e') \<Rightarrow> if t' < t then Some (t', e') else Some (t, e))"
| "first_rejection (p # ps) = first_rejection ps"

definition Promise_all :: "(nat \<times> unit settle) list \<Rightarrow> unit settle" where
  "Promise_all ps =
     (case first_rejection ps of
        Some (t, e) \<Rightarrow> Rejects e
      | None \<Rightarrow> if list_all (\<lambda>p. snd p = Fulfils ()) ps then Fulfils () else Never)"

definition doCleanup ::
  "('c \<Rightarrow> 's \<Rightarrow> behaviour \<times> 's) \<Rightarrow> 'c list \<Rightarrow> 's \<Rightarrow> cleanup_result \<times> 'c list \<times> 's"
where
  "doCleanup call cs s =
     (case map_call call cs s of
        (Inl e, called, s1) \<Rightarrow> (Threw e, called, s1)
      | (Inr ps, called, s1) \<Rightarrow> (Settles (Promise_all ps), called, s1))"

text \<open>The one function that the runner registers: \<open>() => launcher.kill()\<close>.\<close>

fun call_closure :: "('w, 'r) env \<Rightarrow> closure \<Rightarrow> 'w st \<Rightarrow> behaviour \<times> 'w st" where
  "call_closure E KillLauncher st =
     (case launcher_kill E (world st) of
        (p, w) \<Rightarrow> (Returns 0 p, st\<lparr>world := w, trace := trace st @ [Start LauncherKill]\<rparr>))"

subsection \<open>Port resolution\<close>

text \<open>
  The code installs a listener for \<open>listening\<close> only, and never calls \<open>reject\<close>.
\<close>

definition initPort :: "('w, 'r) env \<Rightarrow> 'w st \<Rightarrow> unit res \<times> 'w st" where
  "initPort E st =
     (if port (flags st) \<noteq> 0 then (Ok (), st)
      else
        (let st0 = st\<lparr>trace := trace st @ [CreateServer]\<rparr>
         in case server_listen E (world st0) of
              (ErrorEvent e, w) \<Rightarrow>
                (if sigint st0 = Some 0 then Intr else Thrown e,
                 st0\<lparr>world := w, trace := trace st0 @ [Start Listen], sigint := None\<rparr>)
            | (ev, w) \<Rightarrow>
                (case await Listen
                        (\<lambda>w0. (case ev of Listening p \<Rightarrow> Fulfils p | _ \<Rightarrow> Never, w)) st0 of
                   (Ok p, st1) \<Rightarrow>
                     (Ok (), st1\<lparr>flags := (flags st1)\<lparr>port := p\<rparr>,
                                trace := trace st1 @ [CloseServer]\<rparr>)
                 | (r, st1) \<Rightarrow> (map_res (\<lambda>_. ()) r, st1))))"

subsection \<open>The sequential runner\<close>

text \<open>
  \<open>lighthouseRun\<close> returns \<open>undefined\<close> when \<open>addresses.shift()\<close> is falsy, and a
  promise otherwise. The list argument is the content of the array \<open>addresses\<close>, which
  is the array \<open>cliFlags._\<close>; \<open>shift\<close> writes the rest back to it.
\<close>

datatype ret = Undefined | Promise "unit res"

fun adopt :: "ret \<Rightarrow> unit res" where
  "adopt Undefined = Ok ()"
| "adopt (Promise r) = r"

definition report_filename :: "('w, 'r) env \<Rightarrow> string \<Rightarrow> string" where
  "report_filename E address = ''./'' @ getFilenamePrefix E address @ ''.report.html''"

fun lighthouseRun :: "('w, 'r) env \<Rightarrow> string list \<Rightarrow> 'w st \<Rightarrow> ret \<times> 'w st" where
  "lighthouseRun E [] st = (Undefined, st)"
| "lighthouseRun E (address # rest) st =
     (let st0 = st\<lparr>flags := (flags st)\<lparr>urls := rest\<rparr>\<rparr>
      in if address = [] then (Undefined, st0)
         else
           (case await (Lighthouse address) (lighthouse E address (flags st0)) st0 of
              (Ok results, st1) \<Rightarrow>
                (case await (Write (outputMode (flags st1)) (outputPath (flags st1)))
                        (Printer_write E results (outputMode (flags st1)) (outputPath (flags st1))) st1 of
                   (Ok results', st2) \<Rightarrow>
                     (let st3 =
                            (if outputMode (flags st2) = OutputMode_pretty E
                             then fire (Write ''html'' (report_filename E address))
                                    (Printer_write E results' ''html'' (report_filename E address)) st2
                             else st2)
                      in case lighthouseRun E rest st3 of
                           (r, st4) \<Rightarrow> (Promise (adopt r), st4))
                 | (r, st2) \<Rightarrow> (Promise (map_res (\<lambda>_. ()) r), st2))
            | (r, st1) \<Rightarrow> (Promise (map_res (\<lambda>_. ()) r), st1)))"

subsection \<open>Launching the browser and the race with the interrupt\<close>

definition debuggerReadyOrRun :: "('w, 'r) env \<Rightarrow> 'w st \<Rightarrow> unit res \<times> 'w st" where
  "debuggerReadyOrRun E st =
     (case await IsDebuggerReady (isDebuggerReady E) st of
        (Rej e, st1) \<Rightarrow> await LauncherRun (launcher_run E) st1
      | (r, st1) \<Rightarrow> (r, st1))"

definition launchChromeAndRun :: "('w, 'r) env \<Rightarrow> 'w st \<Rightarrow> unit res \<times> 'w st" where
  "launchChromeAndRun E st =
     (case initPort E st of
        (Ok u, st1) \<Rightarrow>
          (let st2 = register KillLauncher
                       (st1\<lparr>trace := trace st1 @
                          [NewLauncher (port (flags st1)) (\<not> selectChrome (flags st1)), Register]\<rparr>)
           in case debuggerReadyOrRun E st2 of
                (Ok u', st3) \<Rightarrow>
                  (case lighthouseRun E (urls (flags st3)) st3 of
                     (r, st4) \<Rightarrow>
                       (case adopt r of
                          Ok u'' \<Rightarrow> await LauncherKill (launcher_kill E) st4
                        | r' \<Rightarrow> (r', st4)))
              | (r, st3) \<Rightarrow> (r, st3))
      | (r, st1) \<Rightarrow> (r, st1))"

text \<open>
  The handler of the race for the value \<open>SIGINT\<close>:
  \<open>cleanup.doCleanup().catch(err => ...).then(() => process.exit(_ERROR_EXIT_CODE))\<close>.
\<close>

definition sigint_cleanup :: "('w, 'r) env \<Rightarrow> 'w st \<Rightarrow> outcome \<times> 'w st" where
  "sigint_cleanup E st =
     (case doCleanup (call_closure E) (fns st) st of
        (Threw e, called, st1) \<Rightarrow> (Unhandled e, st1)
      | (Settles (Fulfils u), called, st1) \<Rightarrow>
          (Exited ERROR_EXIT_CODE, st1\<lparr>trace := trace st1 @ [Exit ERROR_EXIT_CODE]\<rparr>)
      | (Settles (Rejects err), called, st1) \<Rightarrow>
          (Exited ERROR_EXIT_CODE,
           st1\<lparr>trace := trace st1 @
             [ConsoleError [V err],
              ConsoleError [case stack_of err of None \<Rightarrow> Undef | Some s \<Rightarrow> S s],
              Exit ERROR_EXIT_CODE]\<rparr>)
      | (Settles Never, called, st1) \<Rightarrow> (Hangs, st1))"

text \<open>
  \<open>undefined.catch\<close>, thrown when \<open>lighthouseRun\<close> returns \<open>undefined\<close> to the branch
  that skips the launch.
\<close>

definition TypeError_catch :: reason where
  "TypeError_catch = Err \<lparr>code = None, message = ''TypeError'', stack = None\<rparr>"

definition run :: "('w, 'r) env \<Rightarrow> 'w st \<Rightarrow> outcome \<times> 'w st" where
  "run E st =
     (case initPort E st of
        (Ok u, st1) \<Rightarrow>
          (if skipAutolaunch (flags st1) then
             (case lighthouseRun E (urls (flags st1)) st1 of
                (Undefined, st2) \<Rightarrow> (Unhandled TypeError_catch, st2)
              | (Promise (Ok u'), st2) \<Rightarrow> (Completed, st2)
              | (Promise (Rej e), st2) \<Rightarrow> handleError e st2
              | (Promise Pend, st2) \<Rightarrow> (Hangs, st2)
              | (Promise Intr, st2) \<Rightarrow> (DefaultSigint, st2)
              | (Promise (Thrown e), st2) \<Rightarrow> (Uncaught e, st2))
           else
             (case launchChromeAndRun E (st1\<lparr>trace := trace st1 @ [OnSigint]\<rparr>) of
                (Ok u', st2) \<Rightarrow> (Completed, st2)
              | (Rej e, st2) \<Rightarrow> if e = Str SIGINT then sigint_cleanup E st2 else handleError e st2
              | (Pend, st2) \<Rightarrow> (Hangs, st2)
              | (Intr, st2) \<Rightarrow> sigint_cleanup E st2
              | (Thrown e, st2) \<Rightarrow> (Uncaught e, st2)))
      | (Rej e, st1) \<Rightarrow> (Unhandled e, st1)
      | (Pend, st1) \<Rightarrow> (Hangs, st1)
      | (Intr, st1) \<Rightarrow> (DefaultSigint, st1)
      | (Thrown e, st1) \<Rightarrow> (Uncaught e, st1))"

subsection \<open>The classification of failures, in the words of the specification\<close>

text \<open>
  The three causes and their exit codes as the specification lists them, to be
  compared with \<open>handleError\<close>.
\<close>

datatype category = ConnectionRefused | ProtocolTimeout | RuntimeError

definition classify_spec :: "reason \<Rightarrow> category" where
  "classify_spec err =
     (if code_of err = Some ''ECONNREFUSED'' then ConnectionRefused
      else if code_of err = Some ''CRI_TIMEOUT'' then ProtocolTimeout
      else RuntimeError)"

fun exit_code_spec :: "category \<Rightarrow> nat" where
  "exit_code_spec ConnectionRefused = 1"
| "exit_code_spec ProtocolTimeout = 67"
| "exit_code_spec RuntimeError = 1"

subsection \<open>Reading a trace\<close>

text \<open>The codes of the calls of \<open>process.exit\<close>, in order.\<close>

fun exits :: "event list \<Rightarrow> nat list" where
  "exits [] = []"
| "exits (Exit c # es) = c # exits es"
| "exits (e # es) = exits es"

text \<open>
  The events of the per-address job, and the events that a run of the job for each
  address of a list, one after the other, leaves behind.
\<close>

fun is_job :: "event \<Rightarrow> bool" where
  "is_job (Start (Lighthouse a)) = True"
| "is_job (End (Lighthouse a)) = True"
| "is_job e = False"

definition job_events :: "string list \<Rightarrow> event list" where
  "job_events as = concat (map (\<lambda>a. [Start (Lighthouse a), End (Lighthouse a)]) as)"

text \<open>The addresses for which the job was called, in the order of the calls.\<close>

fun job_calls :: "event list \<Rightarrow> string list" where
  "job_calls [] = []"
| "job_calls (Start (Lighthouse a) # es) = a # job_calls es"
| "job_calls (e # es) = job_calls es"

text \<open>
  The events that one address leaves behind when its job and its write succeed, for the
  output mode \<open>m\<close> and the output path \<open>p\<close>.
\<close>

definition address_events :: "('w, 'r) env \<Rightarrow> string \<Rightarrow> string \<Rightarrow> string \<Rightarrow> event list" where
  "address_events E m p a =
     [Start (Lighthouse a), End (Lighthouse a), Start (Write m p), End (Write m p)] @
     (if m = OutputMode_pretty E then [Start (Write ''html'' (report_filename E a))] else [])"

text \<open>
  What a run may change in the flags: the array of addresses, of which a beginning may
  be consumed, and the port, if it was 0.
\<close>

definition frame :: "cliFlags \<Rightarrow> cliFlags \<Rightarrow> bool" where
  "frame f f' \<longleftrightarrow>
     skipAutolaunch f' = skipAutolaunch f \<and> selectChrome f' = selectChrome f
     \<and> outputMode f' = outputMode f \<and> outputPath f' = outputPath f
     \<and> logLevel f' = logLevel f
     \<and> (\<exists>pre. urls f = pre @ urls f')
     \<and> (port f \<noteq> 0 \<longrightarrow> port f' = port f)"

text \<open>
  For a list of functions called one after the other from the state \<open>s\<close>: the state in
  which the \<open>i\<close>-th of them is called, and what that call does.
\<close>

definition state_before :: "('c \<Rightarrow> 's \<Rightarrow> behaviour \<times> 's) \<Rightarrow> 'c list \<Rightarrow> 's \<Rightarrow> nat \<Rightarrow> 's" where
  "state_before call cs s i = foldl (\<lambda>s' c. snd (call c s')) s (take i cs)"

definition returned :: "('c \<Rightarrow> 's \<Rightarrow> behaviour \<times> 's) \<Rightarrow> 'c list \<Rightarrow> 's \<Rightarrow> nat \<Rightarrow> behaviour" where
  "returned call cs s i = fst (call (cs ! i) (state_before call cs s i))"

text \<open>
  The promises that \<open>n\<close> calls of \<open>launcher.kill\<close>, one after the other from the world
  \<open>w\<close>, return, and the world they leave.
\<close>

fun kill_promises :: "('w, 'r) env \<Rightarrow> nat \<Rightarrow> 'w \<Rightarrow> (nat \<times> unit settle) list \<times> 'w" where
  "kill_promises E 0 w = ([], w)"
| "kill_promises E (Suc n) w =
     (case launcher_kill E w of
        (p, w1) \<Rightarrow> (case kill_promises E n w1 of (ps, w2) \<Rightarrow> ((0, p) # ps, w2)))"

section \<open>Example inputs\<close>

definition example_artifacts :: "unit artifacts" where
  "example_artifacts =
     \<lparr>Accessibility = \<lparr>violations = Some
        [\<lparr>rule_id = ''image-alt'', rule_help = ''Images must have alternate text'', nodes = [(), ()]\<rparr>,
         \<lparr>rule_id = ''color-contrast'', rule_help = ''Elements must have sufficient color contrast'',
          nodes = [()]\<rparr>,
         \<lparr>rule_id = ''color-contrast'', rule_help = ''Second entry'', nodes = []\<rparr>]\<rparr>\<rparr>"

text \<open>A generic failure, a refused connection and a protocol timeout.\<close>

definition boom :: reason where
  "boom = Err \<lparr>code = None, message = ''boom'', stack = Some ''at job''\<rparr>"

definition refused :: reason where
  "refused = Err \<lparr>code = Some ''ECONNREFUSED'', message = ''connect'', stack = Some ''at probe''\<rparr>"

definition timed_out :: reason where
  "timed_out = Err \<lparr>code = Some ''CRI_TIMEOUT'', message = ''timeout'', stack = None\<rparr>"

text \<open>
  An environment in which everything succeeds, except that the job for the address
  \<open>bad\<close> is rejected with \<open>boom\<close>. The outside world is a counter of the calls made.
\<close>

definition E_ok :: "(nat, string) env" where
  "E_ok =
     \<lparr>server_listen = (\<lambda>w. (Listening 40123, Suc w)),
      isDebuggerReady = (\<lambda>w. (Fulfils (), Suc w)),
      launcher_run = (\<lambda>w. (Fulfils (), Suc w)),
      launcher_kill = (\<lambda>w. (Fulfils (), Suc w)),
      lighthouse = (\<lambda>a f w. (if a = ''bad'' then Rejects boom else Fulfils a, Suc w)),
      Printer_write = (\<lambda>r m p w. (Fulfils r, Suc w)),
      OutputMode_pretty = ''pretty'',
      getFilenamePrefix = (\<lambda>a. a)\<rparr>"

text \<open>Everything succeeds, for every address.\<close>

definition E_all_ok :: "(nat, string) env" where
  "E_all_ok = E_ok\<lparr>lighthouse := (\<lambda>a f w. (Fulfils a, Suc w))\<rparr>"

text \<open>No debugger answers, and the launched browser never becomes ready in time.\<close>

definition E_timeout :: "(nat, string) env" where
  "E_timeout = E_ok\<lparr>isDebuggerReady := (\<lambda>w. (Rejects refused, Suc w)),
                     launcher_run := (\<lambda>w. (Rejects timed_out, Suc w))\<rparr>"

text \<open>Every write in the mode \<open>html\<close> fails; everything else succeeds.\<close>

definition E_html_fails :: "(nat, string) env" where
  "E_html_fails =
     E_ok\<lparr>Printer_write := (\<lambda>r m p w. (if m = ''html'' then Rejects boom else Fulfils r, Suc w))\<rparr>"

text \<open>No port can be allocated: the server emits \<open>error\<close>.\<close>

definition no_port :: reason where
  "no_port = Err \<lparr>code = Some ''EACCES'', message = ''listen EACCES'', stack = None\<rparr>"

definition E_refuse :: "(nat, string) env" where
  "E_refuse = E_ok\<lparr>server_listen := (\<lambda>w. (ErrorEvent no_port, Suc w))\<rparr>"

text \<open>
  A registry whose entries are what their calls do; the state counts the calls.
\<close>

definition call_behaviour :: "behaviour \<Rightarrow> nat \<Rightarrow> behaviour \<times> nat" where
  "call_behaviour b n = (b, Suc n)"

text \<open>The launcher cannot be killed: the promise of \<open>kill\<close> never settles.\<close>

definition E_kill_never :: "(nat, string) env" where
  "E_kill_never = E_ok\<lparr>launcher_kill := (\<lambda>w. (Never, Suc w))\<rparr>"


definition example_flags :: cliFlags where
  "example_flags =
     \<lparr>urls = [''a'', ''b''], port = 9222, skipAutolaunch = False, selectChrome = False,
      outputMode = ''pretty'', outputPath = ''stdout'', logLevel = ''info''\<rparr>"

definition s0 :: "nat st" where
  "s0 = \<lparr>world = 0, flags = example_flags, fns = [], trace = [], sigint = None\<rparr>"

definition s_port0 :: "nat st" where
  "s_port0 = s0\<lparr>flags := example_flags\<lparr>port := 0\<rparr>\<rparr>"

text \<open>The only address is one whose job fails.\<close>

definition s_bad :: "nat st" where
  "s_bad = s0\<lparr>flags := example_flags\<lparr>urls := [''bad'']\<rparr>\<rparr>"


text \<open>The interrupt fires while the run waits for its second operation, the first job.\<close>

definition s_int :: "nat st" where
  "s_int = s0\<lparr>sigint := Some 1\<rparr>"

section \<open>Properties\<close>

subsection \<open>The colour-contrast audit\<close>

text \<open>
  C10. For every artifacts input, \<open>audit\<close> returns \<open>rawValue\<close> true exactly when the
  violations (the empty list when absent) hold no entry whose id is \<open>color-contrast\<close>;
  the debug string is empty exactly in that case; and when there is such an entry, the
  debug string is the help text of the first one, followed by its number of nodes, with
  \<open>element\<close> for exactly one node and \<open>elements\<close> otherwise.
\<close>

theorem audit_color_contrast:
  "(rawValue (audit a) \<longleftrightarrow>
      \<not> (\<exists>v \<in> set (case violations (Accessibility a) of None \<Rightarrow> [] | Some l \<Rightarrow> l).
            rule_id v = ''color-contrast''))
   \<and> (debugString (audit a) = '''' \<longleftrightarrow> rawValue (audit a))
   \<and> (\<forall>pre v post.
         (case violations (Accessibility a) of None \<Rightarrow> [] | Some l \<Rightarrow> l) = pre @ v # post
         \<and> rule_id v = ''color-contrast''
         \<and> (\<forall>u \<in> set pre. rule_id u \<noteq> ''color-contrast'')
         \<longrightarrow> debugString (audit a) =
               rule_help v @ '' (Failed on '' @ show_nat (length (nodes v)) @ '' '' @
               (if length (nodes v) = 1 then ''element'' else ''elements'') @ '')'')"
proof (intro conjI allI impI)
  show "rawValue (audit a) \<longleftrightarrow>
      \<not> (\<exists>v \<in> set (case violations (Accessibility a) of None \<Rightarrow> [] | Some l \<Rightarrow> l).
            rule_id v = ''color-contrast'')"
    by (cases "violations (Accessibility a)") (auto simp: audit_def Let_def find_None_iff)
next
  show "debugString (audit a) = '''' \<longleftrightarrow> rawValue (audit a)"
    by (simp add: audit_def Let_def createDebugString_def split: option.splits)
next
  fix pre v post
  assume h: "(case violations (Accessibility a) of None \<Rightarrow> [] | Some l \<Rightarrow> l) = pre @ v # post
         \<and> rule_id v = ''color-contrast''
         \<and> (\<forall>u \<in> set pre. rule_id u \<noteq> ''color-contrast'')"
  have "rule_id v = ''color-contrast'' \<Longrightarrow> \<forall>u \<in> set pre. rule_id u \<noteq> ''color-contrast'' \<Longrightarrow>
        find (\<lambda>result. rule_id result = ''color-contrast'') (pre @ v # post) = Some v"
    by (induction pre) auto
  with h have "find (\<lambda>result. rule_id result = ''color-contrast'') (pre @ v # post) = Some v"
    by simp
  then show "debugString (audit a) =
               rule_help v @ '' (Failed on '' @ show_nat (length (nodes v)) @ '' '' @
               (if length (nodes v) = 1 then ''element'' else ''elements'') @ '')''"
    using h by (simp add: audit_def Let_def createDebugString_def)
qed

theorem audit_color_contrast_witness:
  "\<not> rawValue (audit example_artifacts)
   \<and> debugString (audit example_artifacts) \<noteq> ''''
   \<and> debugString (audit example_artifacts) =
       ''Elements must have sufficient color contrast (Failed on 1 element)''"
  using audit_color_contrast [of example_artifacts, THEN conjunct1]
    audit_color_contrast [of example_artifacts, THEN conjunct2, THEN conjunct1]
    audit_color_contrast [of example_artifacts, THEN conjunct2, THEN conjunct2, rule_format,
      of "[\<lparr>rule_id = ''image-alt'', rule_help = ''Images must have alternate text'', nodes = [(), ()]\<rparr>]"
         "\<lparr>rule_id = ''color-contrast'', rule_help = ''Elements must have sufficient color contrast'',
           nodes = [()]\<rparr>"
         "[\<lparr>rule_id = ''color-contrast'', rule_help = ''Second entry'', nodes = []\<rparr>]"]
  by (simp add: example_artifacts_def digit_char_def)

subsection \<open>Calls of \<open>process.exit\<close>\<close>

lemma exits_append: "exits (xs @ ys) = exits xs @ exits ys"
  by (induction xs rule: exits.induct) auto

lemma await_exits: "await opn f st = (r, st1) \<Longrightarrow> exits (trace st1) = exits (trace st)"
  by (auto simp: await_def Let_def exits_append split: prod.splits if_splits settle.splits)

lemma fire_exits: "exits (trace (fire opn f st)) = exits (trace st)"
  by (simp add: fire_def exits_append split: prod.splits)

lemma initPort_exits: "initPort E st = (r, st1) \<Longrightarrow> exits (trace st1) = exits (trace st)"
  by (auto simp: initPort_def Let_def exits_append
      split: if_splits prod.splits res.splits listen_event.splits dest!: await_exits)

lemma lighthouseRun_exits:
  "lighthouseRun E addresses st = (r, st1) \<Longrightarrow> exits (trace st1) = exits (trace st)"
proof (induction addresses arbitrary: st r st1)
  case Nil
  then show ?case by simp
next
  case (Cons address rest)
  show ?case
  proof (cases "address = []")
    case True
    with Cons.prems show ?thesis by (auto simp: Let_def)
  next
    case False
    with Cons.prems show ?thesis
      by (auto simp: Let_def fire_exits split: prod.splits res.splits if_splits
          dest!: await_exits Cons.IH)
  qed
qed

lemma debuggerReadyOrRun_exits:
  "debuggerReadyOrRun E st = (r, st1) \<Longrightarrow> exits (trace st1) = exits (trace st)"
  by (auto simp: debuggerReadyOrRun_def split: prod.splits res.splits dest!: await_exits)

lemma launchChromeAndRun_exits:
  "launchChromeAndRun E st = (r, st1) \<Longrightarrow> exits (trace st1) = exits (trace st)"
  by (auto simp: launchChromeAndRun_def register_def Let_def exits_append
      split: prod.splits res.splits
      dest!: await_exits initPort_exits debuggerReadyOrRun_exits lighthouseRun_exits)

lemma map_call_closure_exits:
  "map_call (call_closure E) cs st = (r, called, st1) \<Longrightarrow> exits (trace st1) = exits (trace st)"
proof (induction cs arbitrary: st r called st1)
  case Nil
  then show ?case by simp
next
  case (Cons c cs)
  then show ?case
    by (cases c) (auto simp: exits_append split: prod.splits sum.splits)
qed

lemma handleError_exits:
  "handleError e st = (out, st1) \<Longrightarrow>
     (\<exists>c. out = Exited c \<and> (c = 1 \<or> c = 67) \<and> exits (trace st1) = exits (trace st) @ [c])"
  by (auto simp: handleError_def showConnectionError_def showProtocolTimeoutError_def
      showRuntimeError_def RUNTIME_ERROR_CODE_def PROTOCOL_TIMEOUT_EXIT_CODE_def exits_append
      split: if_splits option.splits)

lemma sigint_cleanup_exits:
  "sigint_cleanup E st = (out, st1) \<Longrightarrow>
     exits (trace st1) = exits (trace st) @ (case out of Exited c \<Rightarrow> [c] | _ \<Rightarrow> [])
     \<and> (\<forall>c. out = Exited c \<longrightarrow> c = 130)"
  by (auto simp: sigint_cleanup_def doCleanup_def ERROR_EXIT_CODE_def exits_append
      split: prod.splits sum.splits settle.splits dest!: map_call_closure_exits)

lemma run_exits:
  "run E st = (out, st1) \<Longrightarrow>
     exits (trace st1) = exits (trace st) @ (case out of Exited c \<Rightarrow> [c] | _ \<Rightarrow> [])
     \<and> (\<forall>c. out = Exited c \<longrightarrow> c = 1 \<or> c = 67 \<or> c = 130)"
  apply (simp add: run_def split: prod.splits res.splits if_splits ret.splits)
  apply (auto dest!: initPort_exits lighthouseRun_exits launchChromeAndRun_exits
        handleError_exits sigint_cleanup_exits simp: exits_append)
  done

subsection \<open>The sequential runner\<close>

lemma await_not_Thrown: "await opn f st \<noteq> (Thrown e, st1)"
  by (auto simp: await_def Let_def split: prod.splits settle.splits)

lemma await_frame:
  "await opn f st = (r, st1) \<Longrightarrow> flags st1 = flags st \<and> fns st1 = fns st"
  by (auto simp: await_def Let_def split: prod.splits if_splits settle.splits)

lemma await_trace:
  "await opn f st = (r, st1) \<Longrightarrow>
     trace st1 = trace st @ Start opn # (if r = Pend \<or> r = Intr then [] else [End opn])"
  by (auto simp: await_def Let_def split: prod.splits if_splits settle.splits)

lemma fire_frame: "flags (fire opn f st) = flags st \<and> fns (fire opn f st) = fns st
    \<and> sigint (fire opn f st) = sigint st"
  by (simp add: fire_def split: prod.splits)

lemma fire_trace: "trace (fire opn f st) = trace st @ [Start opn]"
  by (simp add: fire_def split: prod.splits)

lemma job_events_Cons: "job_events (a # as) = Start (Lighthouse a) # End (Lighthouse a) # job_events as"
  by (simp add: job_events_def)

lemma lighthouseRun_trace:
  "lighthouseRun E addresses st = (r, st') \<Longrightarrow>
     \<exists>ev. trace st' = trace st @ ev
        \<and> (\<exists>rest. filter is_job ev @ rest = job_events (takeWhile (\<lambda>a. a \<noteq> []) addresses))
        \<and> (adopt r = Ok () \<longrightarrow> filter is_job ev = job_events (takeWhile (\<lambda>a. a \<noteq> []) addresses))"
proof (induction addresses arbitrary: st r st')
  case Nil
  then show ?case by (simp add: job_events_def)
next
  case (Cons address rest)
  show ?case
  proof (cases "address = []")
    case True
    with Cons.prems show ?thesis by (auto simp: Let_def job_events_def)
  next
    case False
    let ?st0 = "st\<lparr>flags := (flags st)\<lparr>urls := rest\<rparr>\<rparr>"
    obtain r1 st1 where a1: "await (Lighthouse address) (lighthouse E address (flags ?st0)) ?st0 = (r1, st1)"
      by (cases "await (Lighthouse address) (lighthouse E address (flags ?st0)) ?st0") auto
    note t1 = await_trace [OF a1]
    show ?thesis
    proof (cases r1)
      case (Ok results)
      obtain r2 st2 where a2: "await (Write (outputMode (flags st1)) (outputPath (flags st1)))
                        (Printer_write E results (outputMode (flags st1)) (outputPath (flags st1))) st1 = (r2, st2)"
        by (cases "await (Write (outputMode (flags st1)) (outputPath (flags st1)))
                        (Printer_write E results (outputMode (flags st1)) (outputPath (flags st1))) st1") auto
      note t2 = await_trace [OF a2]
      show ?thesis
      proof (cases r2)
        case (Ok results')
        let ?st3 = "(if outputMode (flags st2) = OutputMode_pretty E
                             then fire (Write ''html'' (report_filename E address))
                                    (Printer_write E results' ''html'' (report_filename E address)) st2
                             else st2)"
        obtain r4 st4 where a4: "lighthouseRun E rest ?st3 = (r4, st4)"
          by (cases "lighthouseRun E rest ?st3") auto
        from Cons.IH [OF a4] obtain ev rest' where
          ev: "trace st4 = trace ?st3 @ ev"
              "filter is_job ev @ rest' = job_events (takeWhile (\<lambda>a. a \<noteq> []) rest)"
              "adopt r4 = Ok () \<longrightarrow> filter is_job ev = job_events (takeWhile (\<lambda>a. a \<noteq> []) rest)"
          by blast
        have res: "r = Promise (adopt r4)" "st' = st4"
          using Cons.prems False a1 a2 a4 \<open>r1 = Ok results\<close> Ok by (auto simp: Let_def)
        have t3: "\<exists>w. trace ?st3 = trace st2 @ w \<and> filter is_job w = []"
          by (auto simp: fire_trace)
        then obtain w where w: "trace ?st3 = trace st2 @ w" "filter is_job w = []" by blast
        have tr: "trace st' = trace st @ (Start (Lighthouse address) # End (Lighthouse address) #
              Start (Write (outputMode (flags st1)) (outputPath (flags st1))) #
              End (Write (outputMode (flags st1)) (outputPath (flags st1))) # w @ ev)"
          using res ev(1) w(1) t1 t2 \<open>r1 = Ok results\<close> Ok by simp
        show ?thesis
          apply (rule exI [where x = "Start (Lighthouse address) # End (Lighthouse address) #
              Start (Write (outputMode (flags st1)) (outputPath (flags st1))) #
              End (Write (outputMode (flags st1)) (outputPath (flags st1))) # w @ ev"])
          using tr w(2) ev(2,3) res False
          by (auto simp: job_events_Cons)
      next
        case (Rej e)
        with Cons.prems False a1 a2 \<open>r1 = Ok results\<close> t1 t2 show ?thesis
          by (auto simp: Let_def job_events_Cons)
      next
        case Pend
        with Cons.prems False a1 a2 \<open>r1 = Ok results\<close> t1 t2 show ?thesis
          by (auto simp: Let_def job_events_Cons)
      next
        case Intr
        with Cons.prems False a1 a2 \<open>r1 = Ok results\<close> t1 t2 show ?thesis
          by (auto simp: Let_def job_events_Cons)
      next
        case (Thrown e)
        with a2 show ?thesis by (simp add: await_not_Thrown)
      qed
    next
      case (Rej e)
      with Cons.prems False a1 t1 show ?thesis
        by (auto simp: Let_def job_events_Cons)
    next
      case Pend
      with Cons.prems False a1 t1 show ?thesis
        by (auto simp: Let_def job_events_Cons)
    next
      case Intr
      with Cons.prems False a1 t1 show ?thesis
        by (auto simp: Let_def job_events_Cons)
    next
      case (Thrown e)
      with a1 show ?thesis by (simp add: await_not_Thrown)
    qed
  qed
qed

lemma flags_urlsI:
  "f' = f\<lparr>urls := u\<rparr> \<Longrightarrow> xs = pre @ u \<Longrightarrow> \<exists>pre u. f' = f\<lparr>urls := u\<rparr> \<and> xs = pre @ u"
  by blast

lemma lighthouseRun_flags:
  "lighthouseRun E addresses st = (r, st') \<Longrightarrow> urls (flags st) = addresses \<Longrightarrow>
     (\<exists>pre u. flags st' = (flags st)\<lparr>urls := u\<rparr> \<and> addresses = pre @ u)
     \<and> fns st' = fns st"
proof (induction addresses arbitrary: st r st')
  case Nil
  then show ?case by simp
next
  case (Cons address rest)
  show ?case
  proof (cases "address = []")
    case True
    with Cons.prems show ?thesis
      by (auto simp: Let_def intro: flags_urlsI [where pre = "[address]"])
  next
    case False
    let ?st0 = "st\<lparr>flags := (flags st)\<lparr>urls := rest\<rparr>\<rparr>"
    obtain r1 st1 where a1: "await (Lighthouse address) (lighthouse E address (flags ?st0)) ?st0 = (r1, st1)"
      by (cases "await (Lighthouse address) (lighthouse E address (flags ?st0)) ?st0") auto
    note f1 = await_frame [OF a1]
    show ?thesis
    proof (cases r1)
      case (Ok results)
      obtain r2 st2 where a2: "await (Write (outputMode (flags st1)) (outputPath (flags st1)))
                        (Printer_write E results (outputMode (flags st1)) (outputPath (flags st1))) st1 = (r2, st2)"
        by (cases "await (Write (outputMode (flags st1)) (outputPath (flags st1)))
                        (Printer_write E results (outputMode (flags st1)) (outputPath (flags st1))) st1") auto
      note f2 = await_frame [OF a2]
      show ?thesis
      proof (cases r2)
        case (Ok results')
        let ?st3 = "(if outputMode (flags st2) = OutputMode_pretty E
                             then fire (Write ''html'' (report_filename E address))
                                    (Printer_write E results' ''html'' (report_filename E address)) st2
                             else st2)"
        obtain r4 st4 where a4: "lighthouseRun E rest ?st3 = (r4, st4)"
          by (cases "lighthouseRun E rest ?st3") auto
        have f3: "flags ?st3 = flags ?st0" "fns ?st3 = fns st"
          using f1 f2 by (auto simp: fire_frame)
        then have u3: "urls (flags ?st3) = rest" by simp
        note ih = Cons.IH [OF a4 u3]
        have res: "st' = st4"
          using Cons.prems False a1 a2 a4 \<open>r1 = Ok results\<close> Ok by (auto simp: Let_def)
        from ih obtain pre u where pre: "flags st4 = (flags ?st3)\<lparr>urls := u\<rparr>" "rest = pre @ u"
          by blast
        have "address # rest = (address # pre) @ u" using pre by simp
        moreover have "flags st' = (flags st)\<lparr>urls := u\<rparr>"
          using pre f3 res by simp
        moreover have "fns st' = fns st" using ih f3 res by simp
        ultimately show ?thesis by blast
      next
        case (Rej e)
        with Cons.prems False a1 a2 \<open>r1 = Ok results\<close> f1 f2 show ?thesis
          by (auto simp: Let_def intro: flags_urlsI [where pre = "[address]"])
      next
        case Pend
        with Cons.prems False a1 a2 \<open>r1 = Ok results\<close> f1 f2 show ?thesis
          by (auto simp: Let_def intro: flags_urlsI [where pre = "[address]"])
      next
        case Intr
        with Cons.prems False a1 a2 \<open>r1 = Ok results\<close> f1 f2 show ?thesis
          by (auto simp: Let_def intro: flags_urlsI [where pre = "[address]"])
      next
        case (Thrown e)
        with a2 show ?thesis by (simp add: await_not_Thrown)
      qed
    next
      case (Rej e)
      with Cons.prems False a1 f1 show ?thesis
        by (auto simp: Let_def intro: flags_urlsI [where pre = "[address]"])
    next
      case Pend
      with Cons.prems False a1 f1 show ?thesis
        by (auto simp: Let_def intro: flags_urlsI [where pre = "[address]"])
    next
      case Intr
      with Cons.prems False a1 f1 show ?thesis
        by (auto simp: Let_def intro: flags_urlsI [where pre = "[address]"])
    next
      case (Thrown e)
      with a1 show ?thesis by (simp add: await_not_Thrown)
    qed
  qed
qed

text \<open>
  The trace of a run that is fulfilled: for each address in turn the job, then the
  write in the configured mode, both awaited, then, in the default output mode only, the
  start of the write of the HTML copy, to the file named after the address.
\<close>

lemma await_Ok_trace:
  "await opn f st = (Ok v, st1) \<Longrightarrow> trace st1 = trace st @ [Start opn, End opn]"
  by (drule await_trace) simp

lemma lighthouseRun_success_trace:
  "lighthouseRun E addresses st = (r, st') \<Longrightarrow> adopt r = Ok () \<Longrightarrow>
     trace st' = trace st @
       concat (map (address_events E (outputMode (flags st)) (outputPath (flags st)))
                 (takeWhile (\<lambda>a. a \<noteq> []) addresses))"
proof (induction addresses arbitrary: st r st')
  case Nil
  then show ?case by simp
next
  case (Cons address rest)
  show ?case
  proof (cases "address = []")
    case True
    with Cons.prems show ?thesis by (auto simp: Let_def)
  next
    case False
    let ?st0 = "st\<lparr>flags := (flags st)\<lparr>urls := rest\<rparr>\<rparr>"
    obtain r1 st1 where a1: "await (Lighthouse address) (lighthouse E address (flags ?st0)) ?st0 = (r1, st1)"
      by (cases "await (Lighthouse address) (lighthouse E address (flags ?st0)) ?st0") auto
    note f1 = await_frame [OF a1]
    from Cons.prems False a1 obtain results where r1: "r1 = Ok results"
      by (cases r1) (auto simp: Let_def)
    obtain r2 st2 where a2: "await (Write (outputMode (flags st1)) (outputPath (flags st1)))
                        (Printer_write E results (outputMode (flags st1)) (outputPath (flags st1))) st1 = (r2, st2)"
      by (cases "await (Write (outputMode (flags st1)) (outputPath (flags st1)))
                        (Printer_write E results (outputMode (flags st1)) (outputPath (flags st1))) st1") auto
    note f2 = await_frame [OF a2]
    from Cons.prems False a1 a2 r1 obtain results' where r2: "r2 = Ok results'"
      by (cases r2) (auto simp: Let_def)
    let ?st3 = "(if outputMode (flags st2) = OutputMode_pretty E
                             then fire (Write ''html'' (report_filename E address))
                                    (Printer_write E results' ''html'' (report_filename E address)) st2
                             else st2)"
    obtain r4 st4 where a4: "lighthouseRun E rest ?st3 = (r4, st4)"
      by (cases "lighthouseRun E rest ?st3") auto
    have res: "r = Promise (adopt r4)" "st' = st4"
      using Cons.prems False a1 a2 a4 r1 r2 by (auto simp: Let_def)
    then have ok4: "adopt r4 = Ok ()" using Cons.prems(2) by simp
    have m: "outputMode (flags st1) = outputMode (flags st)" "outputPath (flags st1) = outputPath (flags st)"
       "outputMode (flags st2) = outputMode (flags st)"
       "outputMode (flags ?st3) = outputMode (flags st)" "outputPath (flags ?st3) = outputPath (flags st)"
      using f1 f2 by (auto simp: fire_frame)
    have t12: "trace st2 = trace st @ [Start (Lighthouse address), End (Lighthouse address),
        Start (Write (outputMode (flags st)) (outputPath (flags st))),
        End (Write (outputMode (flags st)) (outputPath (flags st)))]"
      using await_Ok_trace [OF a1 [unfolded r1]] await_Ok_trace [OF a2 [unfolded r2]] m by simp
    have t3: "trace ?st3 = trace st @ address_events E (outputMode (flags st)) (outputPath (flags st)) address"
      using t12 m by (simp add: address_events_def fire_trace)
    show ?thesis
      using Cons.IH [OF a4 ok4] t3 m res False by simp
  qed
qed

lemmas example_defs =
  E_ok_def E_html_fails_def E_timeout_def s0_def example_flags_def boom_def refused_def
  timed_out_def await_def fire_def report_filename_def

lemma await_Fulfils:
  "f (world st) = (Fulfils v, w) \<Longrightarrow> sigint st = None \<Longrightarrow>
     \<exists>st1. await opn f st = (Ok v, st1) \<and> sigint st1 = None \<and> flags st1 = flags st"
  by (simp add: await_def)

lemma lighthouseRun_total:
  assumes jobs: "\<forall>a f w. \<exists>v w'. lighthouse E a f w = (Fulfils v, w')"
    and writes: "\<forall>x w. \<exists>v w'. Printer_write E x m p w = (Fulfils v, w')"
  shows "outputMode (flags st) = m \<Longrightarrow> outputPath (flags st) = p \<Longrightarrow> sigint st = None \<Longrightarrow>
     adopt (fst (lighthouseRun E addresses st)) = Ok ()"
proof (induction addresses arbitrary: st)
  case Nil
  show ?case by simp
next
  case (Cons address rest)
  show ?case
  proof (cases "address = []")
    case True
    then show ?thesis by (simp add: Let_def)
  next
    case False
    let ?st0 = "st\<lparr>flags := (flags st)\<lparr>urls := rest\<rparr>\<rparr>"
    from jobs obtain v w1 where j: "lighthouse E address (flags ?st0) (world ?st0) = (Fulfils v, w1)"
      by blast
    from await_Fulfils [of "lighthouse E address (flags ?st0)" ?st0 v w1 "Lighthouse address", OF j]
      Cons.prems obtain st1 where
      a1: "await (Lighthouse address) (lighthouse E address (flags ?st0)) ?st0 = (Ok v, st1)"
      and s1: "sigint st1 = None" "flags st1 = flags ?st0"
      by auto
    have mp1: "outputMode (flags st1) = m" "outputPath (flags st1) = p"
      using s1 Cons.prems by simp_all
    from writes obtain v' w2 where wr: "Printer_write E v m p (world st1) = (Fulfils v', w2)"
      by blast
    from await_Fulfils [of "Printer_write E v m p" st1 v' w2 "Write m p", OF wr s1(1)] obtain st2 where
      a2: "await (Write m p) (Printer_write E v m p) st1 = (Ok v', st2)"
      and s2: "sigint st2 = None" "flags st2 = flags st1"
      by auto
    let ?st3 = "(if outputMode (flags st2) = OutputMode_pretty E
                             then fire (Write ''html'' (report_filename E address))
                                    (Printer_write E v' ''html'' (report_filename E address)) st2
                             else st2)"
    have s3: "sigint ?st3 = None" "outputMode (flags ?st3) = m" "outputPath (flags ?st3) = p"
      using s2 mp1 by (simp_all add: fire_frame)
    obtain r4 st4 where a4: "lighthouseRun E rest ?st3 = (r4, st4)"
      by (cases "lighthouseRun E rest ?st3") auto
    have "adopt (fst (lighthouseRun E rest ?st3)) = Ok ()"
      using Cons.IH [OF s3(2) s3(3) s3(1)] .
    then have ok4: "adopt r4 = Ok ()" unfolding a4 by simp
    have "lighthouseRun E (address # rest) st = (Promise (adopt r4), st4)"
      using False a1 a2 mp1 a4 by (simp add: Let_def)
    with ok4 show ?thesis by simp
  qed
qed

text \<open>
  C3, as the code has it. The runner calls the job for the addresses in input order, one
  at a time: the job events of any run are a beginning of the sequence "start, end" for
  each address in turn, so that no address is called twice, none out of order, and none
  before the job before it has ended. The runner takes an empty string for the end of
  the list: the addresses it processes are those before the first empty one. When every
  job and every write in the configured mode is fulfilled and no interrupt fires, the
  run is fulfilled and has run, for each of these addresses in turn and exactly once,
  the job and then the write (and in the default mode started the HTML copy); when no
  address is empty, these are all the addresses. For the empty list the runner returns
  at once and does nothing.
\<close>

theorem lighthouseRun_in_order:
  "lighthouseRun E addresses st = (r, st') \<Longrightarrow>
     \<exists>ev. trace st' = trace st @ ev
        \<and> (\<exists>rest. filter is_job ev @ rest = job_events (takeWhile (\<lambda>a. a \<noteq> []) addresses))
        \<and> (adopt r = Ok () \<longrightarrow> filter is_job ev = job_events (takeWhile (\<lambda>a. a \<noteq> []) addresses))
        \<and> (adopt r = Ok () \<and> [] \<notin> set addresses \<longrightarrow> filter is_job ev = job_events addresses)
        \<and> ((\<forall>a f w. \<exists>v w'. lighthouse E a f w = (Fulfils v, w'))
             \<and> (\<forall>x w. \<exists>v w'. Printer_write E x (outputMode (flags st)) (outputPath (flags st)) w
                                = (Fulfils v, w'))
             \<and> sigint st = None \<longrightarrow>
               adopt r = Ok ()
               \<and> ev = concat (map (address_events E (outputMode (flags st)) (outputPath (flags st)))
                                 (takeWhile (\<lambda>a. a \<noteq> []) addresses))
               \<and> filter is_job ev = job_events (takeWhile (\<lambda>a. a \<noteq> []) addresses)
               \<and> ([] \<notin> set addresses \<longrightarrow> filter is_job ev = job_events addresses))
        \<and> (addresses = [] \<longrightarrow> r = Undefined \<and> st' = st)"
proof -
  assume run: "lighthouseRun E addresses st = (r, st')"
  from lighthouseRun_trace [OF run] obtain ev where
    ev: "trace st' = trace st @ ev"
        "\<exists>rest. filter is_job ev @ rest = job_events (takeWhile (\<lambda>a. a \<noteq> []) addresses)"
        "adopt r = Ok () \<longrightarrow> filter is_job ev = job_events (takeWhile (\<lambda>a. a \<noteq> []) addresses)"
    by blast
  have all: "[] \<notin> set addresses \<Longrightarrow> takeWhile (\<lambda>a. a \<noteq> []) addresses = addresses"
    by (induction addresses) auto
  have nil: "addresses = [] \<longrightarrow> r = Undefined \<and> st' = st"
    using run by auto
  have full: "adopt r = Ok () \<and> [] \<notin> set addresses \<longrightarrow> filter is_job ev = job_events addresses"
  proof
    assume a: "adopt r = Ok () \<and> [] \<notin> set addresses"
    then have tw: "takeWhile (\<lambda>a. a \<noteq> []) addresses = addresses"
      using all by blast
    from a ev(3) have "filter is_job ev = job_events (takeWhile (\<lambda>a. a \<noteq> []) addresses)"
      by blast
    then show "filter is_job ev = job_events addresses"
      unfolding tw .
  qed
  have total: "(\<forall>a f w. \<exists>v w'. lighthouse E a f w = (Fulfils v, w'))
             \<and> (\<forall>x w. \<exists>v w'. Printer_write E x (outputMode (flags st)) (outputPath (flags st)) w
                                = (Fulfils v, w'))
             \<and> sigint st = None \<longrightarrow>
               adopt r = Ok ()
               \<and> ev = concat (map (address_events E (outputMode (flags st)) (outputPath (flags st)))
                                 (takeWhile (\<lambda>a. a \<noteq> []) addresses))
               \<and> filter is_job ev = job_events (takeWhile (\<lambda>a. a \<noteq> []) addresses)
               \<and> ([] \<notin> set addresses \<longrightarrow> filter is_job ev = job_events addresses)"
  proof (intro impI, elim conjE)
    assume jobs: "\<forall>a f w. \<exists>v w'. lighthouse E a f w = (Fulfils v, w')"
      and writes: "\<forall>x w. \<exists>v w'. Printer_write E x (outputMode (flags st)) (outputPath (flags st)) w
                                = (Fulfils v, w')"
      and quiet: "sigint st = None"
    have "adopt (fst (lighthouseRun E addresses st)) = Ok ()"
      using lighthouseRun_total [OF jobs writes refl refl quiet] .
    then have ok: "adopt r = Ok ()" unfolding run by simp
    from lighthouseRun_success_trace [OF run ok] ev(1)
    have e: "ev = concat (map (address_events E (outputMode (flags st)) (outputPath (flags st)))
                                 (takeWhile (\<lambda>a. a \<noteq> []) addresses))"
      by simp
    from ok ev(3) have j: "filter is_job ev = job_events (takeWhile (\<lambda>a. a \<noteq> []) addresses)"
      by blast
    from ok full have f: "[] \<notin> set addresses \<longrightarrow> filter is_job ev = job_events addresses"
      by blast
    from ok e j f show "adopt r = Ok ()
               \<and> ev = concat (map (address_events E (outputMode (flags st)) (outputPath (flags st)))
                                 (takeWhile (\<lambda>a. a \<noteq> []) addresses))
               \<and> filter is_job ev = job_events (takeWhile (\<lambda>a. a \<noteq> []) addresses)
               \<and> ([] \<notin> set addresses \<longrightarrow> filter is_job ev = job_events addresses)"
      by blast
  qed
  show ?thesis
    using ev nil full total by blast
qed

lemma lighthouseRun_example:
  "lighthouseRun E_ok [''a'', ''b''] s0 =
     (Promise (Ok ()),
      s0\<lparr>world := 6, flags := example_flags\<lparr>urls := []\<rparr>,
         trace :=
           [Start (Lighthouse ''a''), End (Lighthouse ''a''),
            Start (Write ''pretty'' ''stdout''), End (Write ''pretty'' ''stdout''),
            Start (Write ''html'' ''./a.report.html''),
            Start (Lighthouse ''b''), End (Lighthouse ''b''),
            Start (Write ''pretty'' ''stdout''), End (Write ''pretty'' ''stdout''),
            Start (Write ''html'' ''./b.report.html'')]\<rparr>)"
  by (simp add: example_defs)

theorem lighthouseRun_in_order_witness:
  "adopt (fst (lighthouseRun E_all_ok [''a'', ''b''] s0)) = Ok ()
   \<and> (\<exists>ev. trace (snd (lighthouseRun E_all_ok [''a'', ''b''] s0)) = trace s0 @ ev
          \<and> filter is_job ev =
              [Start (Lighthouse ''a''), End (Lighthouse ''a''),
               Start (Lighthouse ''b''), End (Lighthouse ''b'')])"
proof -
  have jobs: "\<forall>a f w. \<exists>v w'. lighthouse E_all_ok a f w = (Fulfils v, w')"
    by (simp add: E_all_ok_def)
  have writes: "\<forall>x w. \<exists>v w'. Printer_write E_all_ok x (outputMode (flags s0)) (outputPath (flags s0)) w
                                = (Fulfils v, w')"
    by (simp add: E_all_ok_def E_ok_def)
  have quiet: "sigint s0 = None" by (simp add: s0_def)
  have ne: "[] \<notin> set [''a'', ''b'']" by simp
  from lighthouseRun_in_order [of E_all_ok "[''a'', ''b'']" s0
      "fst (lighthouseRun E_all_ok [''a'', ''b''] s0)" "snd (lighthouseRun E_all_ok [''a'', ''b''] s0)"]
  obtain ev where
    ev: "trace (snd (lighthouseRun E_all_ok [''a'', ''b''] s0)) = trace s0 @ ev"
    and tot: "(\<forall>a f w. \<exists>v w'. lighthouse E_all_ok a f w = (Fulfils v, w'))
             \<and> (\<forall>x w. \<exists>v w'. Printer_write E_all_ok x (outputMode (flags s0)) (outputPath (flags s0)) w
                                = (Fulfils v, w'))
             \<and> sigint s0 = None \<longrightarrow>
               adopt (fst (lighthouseRun E_all_ok [''a'', ''b''] s0)) = Ok ()
               \<and> ev = concat (map (address_events E_all_ok (outputMode (flags s0)) (outputPath (flags s0)))
                                 (takeWhile (\<lambda>a. a \<noteq> []) [''a'', ''b'']))
               \<and> filter is_job ev = job_events (takeWhile (\<lambda>a. a \<noteq> []) [''a'', ''b''])
               \<and> ([] \<notin> set [''a'', ''b''] \<longrightarrow> filter is_job ev = job_events [''a'', ''b''])"
    by (simp del: lighthouseRun.simps) blast
  from tot jobs writes quiet ne have
    "adopt (fst (lighthouseRun E_all_ok [''a'', ''b''] s0)) = Ok ()"
    "filter is_job ev = job_events [''a'', ''b'']"
    by blast+
  with ev show ?thesis
    by (intro conjI exI [of _ ev]) (simp_all add: job_events_def del: lighthouseRun.simps)
qed

text \<open>
  C3 as it is stated fails: every job and every write succeeds, and yet of the three
  addresses only the first is processed, because the second is the empty string.
\<close>

theorem lighthouseRun_skips_counterexample:
  "fst (lighthouseRun E_ok [''a'', '''', ''b''] s0) = Promise (Ok ())
   \<and> job_calls (trace (snd (lighthouseRun E_ok [''a'', '''', ''b''] s0))) = [''a'']
   \<and> job_calls (trace (snd (lighthouseRun E_ok [''a'', '''', ''b''] s0))) \<noteq> [''a'', '''', ''b'']"
  by (simp add: example_defs)

text \<open>
  C4 fails on the code at this input: the output mode is the default one, the write of
  the secondary HTML copy for the first address is rejected, and yet the runner calls
  the job for the second address and its promise is fulfilled. The failure of the writer
  neither stops the sequence nor leaves the runner.
\<close>

theorem html_write_failure_dropped:
  "fst (Printer_write E_html_fails ''a'' ''html'' ''./a.report.html'' 2) = Rejects boom
   \<and> fst (lighthouseRun E_html_fails [''a'', ''b''] s0) = Promise (Ok ())
   \<and> job_calls (trace (snd (lighthouseRun E_html_fails [''a'', ''b''] s0))) = [''a'', ''b'']"
  by (simp add: example_defs)

text \<open>
  C8 fails on the code at this input: in the default output mode the write of the
  secondary HTML copy for the first address is started and the job for the second
  address is called at once; the runner never waits for that write to settle.
\<close>

theorem next_job_before_html_copy_written:
  "trace (snd (lighthouseRun E_ok [''a'', ''b''] s0)) =
     [Start (Lighthouse ''a''), End (Lighthouse ''a''),
      Start (Write ''pretty'' ''stdout''), End (Write ''pretty'' ''stdout''),
      Start (Write ''html'' ''./a.report.html''),
      Start (Lighthouse ''b''), End (Lighthouse ''b''),
      Start (Write ''pretty'' ''stdout''), End (Write ''pretty'' ''stdout''),
      Start (Write ''html'' ''./b.report.html'')]
   \<and> End (Write ''html'' ''./a.report.html'') \<notin> set (trace (snd (lighthouseRun E_ok [''a'', ''b''] s0)))"
  unfolding lighthouseRun_example by (simp add: s0_def)

subsection \<open>What a run changes in the flags\<close>

lemma frame_refl: "frame f f"
  by (simp add: frame_def)

lemma frame_trans: "frame f f' \<Longrightarrow> frame f' f'' \<Longrightarrow> frame f f''"
  unfolding frame_def
  apply (elim conjE exE)
  apply (intro conjI)
        apply simp_all
  done

lemma initPort_flags:
  "initPort E st = (r, st1) \<Longrightarrow>
     (\<exists>p. flags st1 = (flags st)\<lparr>port := p\<rparr>) \<and> fns st1 = fns st
     \<and> (port (flags st) \<noteq> 0 \<longrightarrow> st1 = st)"
proof (cases "port (flags st) = 0")
  case False
  assume "initPort E st = (r, st1)"
  with False have "st1 = st" by (simp add: initPort_def)
  moreover have "flags st = (flags st)\<lparr>port := port (flags st)\<rparr>" by simp
  ultimately show ?thesis by blast
next
  case True
  assume i: "initPort E st = (r, st1)"
  have same: "flags st = (flags st)\<lparr>port := port (flags st)\<rparr>" by simp
  let ?st0 = "st\<lparr>trace := trace st @ [CreateServer]\<rparr>"
  obtain ev w where l: "server_listen E (world st) = (ev, w)"
    by (cases "server_listen E (world st)") auto
  show ?thesis
  proof (cases "\<exists>e. ev = ErrorEvent e")
    case True
    with i l \<open>port (flags st) = 0\<close> have "flags st1 = flags st" "fns st1 = fns st"
      by (auto simp: initPort_def Let_def split: if_splits)
    with same \<open>port (flags st) = 0\<close> show ?thesis by metis
  next
    case False
    obtain r2 st2 where a:
      "await Listen (\<lambda>w0. (case ev of Listening p \<Rightarrow> Fulfils p | _ \<Rightarrow> Never, w)) ?st0 = (r2, st2)"
      by (cases "await Listen (\<lambda>w0. (case ev of Listening p \<Rightarrow> Fulfils p | _ \<Rightarrow> Never, w)) ?st0") auto
    from await_frame [OF a] have f2: "flags st2 = flags st" "fns st2 = fns st" by simp_all
    show ?thesis
    proof (cases r2)
      case (Ok p)
      with i l a False \<open>port (flags st) = 0\<close> have "st1 = st2\<lparr>flags := (flags st2)\<lparr>port := p\<rparr>,
                                trace := trace st2 @ [CloseServer]\<rparr>"
        by (cases ev) (auto simp: initPort_def Let_def)
      with f2 \<open>port (flags st) = 0\<close> show ?thesis by auto
    next
      case (Rej e)
      with i l a False \<open>port (flags st) = 0\<close> have "st1 = st2"
        by (cases ev) (auto simp: initPort_def Let_def)
      with f2 same \<open>port (flags st) = 0\<close> show ?thesis by metis
    next
      case Pend
      with i l a False \<open>port (flags st) = 0\<close> have "st1 = st2"
        by (cases ev) (auto simp: initPort_def Let_def)
      with f2 same \<open>port (flags st) = 0\<close> show ?thesis by metis
    next
      case Intr
      with i l a False \<open>port (flags st) = 0\<close> have "st1 = st2"
        by (cases ev) (auto simp: initPort_def Let_def)
      with f2 same \<open>port (flags st) = 0\<close> show ?thesis by metis
    next
      case (Thrown e)
      with a show ?thesis by (simp add: await_not_Thrown)
    qed
  qed
qed

lemma initPort_frame: "initPort E st = (r, st1) \<Longrightarrow> frame (flags st) (flags st1)"
  by (drule initPort_flags) (auto simp: frame_def)

lemma lighthouseRun_frame:
  "lighthouseRun E (urls (flags st)) st = (r, st') \<Longrightarrow> frame (flags st) (flags st')"
  by (drule lighthouseRun_flags) (auto simp: frame_def)

lemma debuggerReadyOrRun_frame:
  "debuggerReadyOrRun E st = (r, st1) \<Longrightarrow> flags st1 = flags st \<and> fns st1 = fns st"
  by (auto simp: debuggerReadyOrRun_def split: prod.splits res.splits dest!: await_frame)

lemma launchChromeAndRun_frame:
  "launchChromeAndRun E st = (r, st1) \<Longrightarrow> frame (flags st) (flags st1)"
  apply (simp add: launchChromeAndRun_def Let_def split: prod.splits res.splits)
  apply (auto simp: register_def dest!: initPort_frame debuggerReadyOrRun_frame await_frame lighthouseRun_frame
      intro: frame_trans)
  done

lemma map_call_closure_frame:
  "map_call (call_closure E) cs st = (r, called, st1) \<Longrightarrow> flags st1 = flags st \<and> fns st1 = fns st"
proof (induction cs arbitrary: st r called st1)
  case Nil
  then show ?case by simp
next
  case (Cons c cs)
  then show ?case
    by (cases c) (auto split: prod.splits sum.splits)
qed

lemma handleError_frame: "handleError e st = (out, st1) \<Longrightarrow> flags st1 = flags st \<and> fns st1 = fns st"
  by (auto simp: handleError_def showConnectionError_def showProtocolTimeoutError_def
      showRuntimeError_def split: if_splits)

lemma sigint_cleanup_frame:
  "sigint_cleanup E st = (out, st1) \<Longrightarrow> flags st1 = flags st \<and> fns st1 = fns st"
  by (auto simp: sigint_cleanup_def doCleanup_def split: prod.splits sum.splits settle.splits
      dest!: map_call_closure_frame)

lemma run_frame_aux: "run E st = (out, st') \<Longrightarrow> frame (flags st) (flags st')"
  apply (simp add: run_def split: prod.splits res.splits if_splits ret.splits)
  apply (auto dest!: initPort_frame lighthouseRun_frame launchChromeAndRun_frame
        handleError_frame sigint_cleanup_frame intro: frame_trans)
  done

text \<open>
  C9, as the code has it. A run leaves every field of the flags as it was, except the
  array of addresses, of which the runner consumes a beginning, and the port, which is
  only written when it was 0; port resolution itself changes no field but the port, and
  nothing at all when the port is not 0.
\<close>

theorem run_frame:
  "run E st = (out, st') \<Longrightarrow>
     frame (flags st) (flags st')
     \<and> (\<forall>r st1. initPort E st = (r, st1) \<longrightarrow>
           (\<exists>p. flags st1 = (flags st)\<lparr>port := p\<rparr>) \<and> (port (flags st) \<noteq> 0 \<longrightarrow> st1 = st))"
  using run_frame_aux initPort_flags by blast

lemma run_ok_example:
  "run E_ok s0 =
     (Completed,
      s0\<lparr>world := 8, flags := example_flags\<lparr>urls := []\<rparr>, fns := [KillLauncher],
         trace :=
           [OnSigint, NewLauncher 9222 True, Register,
            Start IsDebuggerReady, End IsDebuggerReady,
            Start (Lighthouse ''a''), End (Lighthouse ''a''),
            Start (Write ''pretty'' ''stdout''), End (Write ''pretty'' ''stdout''),
            Start (Write ''html'' ''./a.report.html''),
            Start (Lighthouse ''b''), End (Lighthouse ''b''),
            Start (Write ''pretty'' ''stdout''), End (Write ''pretty'' ''stdout''),
            Start (Write ''html'' ''./b.report.html''),
            Start LauncherKill, End LauncherKill]\<rparr>)"
  by (simp add: run_def initPort_def launchChromeAndRun_def debuggerReadyOrRun_def register_def
      example_defs)

theorem run_frame_witness:
  "frame (flags s0) (flags (snd (run E_ok s0)))
   \<and> urls (flags (snd (run E_ok s0))) = []
   \<and> port (flags (snd (run E_ok s0))) = 9222"
  using run_frame [OF run_ok_example] unfolding run_ok_example
  by (simp add: s0_def example_flags_def)

text \<open>
  C9 as it is stated fails: the array of addresses is part of the configuration, and
  the run empties it.
\<close>

theorem run_consumes_urls_counterexample:
  "urls (flags s0) = [''a'', ''b'']
   \<and> urls (flags (snd (run E_ok s0))) = []
   \<and> flags (snd (run E_ok s0)) \<noteq> flags s0
   \<and> port (flags (snd (run E_ok s0))) = port (flags s0)"
  unfolding run_ok_example by (simp add: s0_def example_flags_def)

subsection \<open>The cleanup registry\<close>

lemma map_call_called:
  "map_call call cs s = (r, called, s') \<Longrightarrow>
     (\<exists>rest. cs = called @ rest)
     \<and> (case r of
          Inr ps \<Rightarrow> called = cs \<and> length ps = length cs
        | Inl e \<Rightarrow> called \<noteq> [] \<and> (\<exists>s1. fst (call (last called) s1) = Throws e))"
proof (induction cs arbitrary: s r called s')
  case Nil
  then show ?case by auto
next
  case (Cons c cs)
  obtain b s1 where c: "call c s = (b, s1)" by (cases "call c s") auto
  show ?case
  proof (cases b)
    case (Throws e)
    with Cons.prems c have r: "r = Inl e" "called = [c]" by auto
    have "\<exists>s1. fst (call c s1) = Throws e"
      using c Throws by (intro exI [of _ s]) simp
    with r show ?thesis by simp
  next
    case (Returns t p)
    obtain r2 called2 s2 where m: "map_call call cs s1 = (r2, called2, s2)"
      by (cases "map_call call cs s1") auto
    from Cons.IH [OF m] Cons.prems c Returns m show ?thesis
      by (cases r2) (auto split: if_splits)
  qed
qed

lemma first_rejection_None:
  "first_rejection ps = None \<longleftrightarrow> (\<forall>t e. (t, Rejects e) \<notin> set ps)"
  by (induction ps rule: first_rejection.induct) (auto split: option.splits)

lemma first_rejection_Some:
  "first_rejection ps = Some (t, e) \<Longrightarrow>
     (t, Rejects e) \<in> set ps \<and> (\<forall>t' e'. (t', Rejects e') \<in> set ps \<longrightarrow> t \<le> t')"
proof (induction ps arbitrary: t e rule: first_rejection.induct)
  case 1
  then show ?case by simp
next
  case (2 t0 e0 ps)
  show ?case
  proof (cases "first_rejection ps")
    case None
    with "2.prems" have "t = t0" "e = e0" by auto
    moreover from None have "\<forall>t' e'. (t', Rejects e') \<notin> set ps"
      by (simp add: first_rejection_None)
    ultimately show ?thesis by auto
  next
    case (Some te)
    obtain t1 e1 where te: "te = (t1, e1)" by (cases te) auto
    note ih = "2.IH" [OF Some [unfolded te]]
    show ?thesis
    proof (cases "t1 < t0")
      case True
      with "2.prems" Some te have "t = t1" "e = e1" by auto
      with ih True show ?thesis by fastforce
    next
      case False
      with "2.prems" Some te have "t = t0" "e = e0" by auto
      with ih False show ?thesis by fastforce
    qed
  qed
qed auto

lemma Promise_all_Fulfils:
  "Promise_all ps = Fulfils () \<longleftrightarrow> (\<forall>q \<in> set ps. snd q = Fulfils ())"
proof (cases "first_rejection ps")
  case None
  then show ?thesis by (simp add: Promise_all_def list_all_iff)
next
  case (Some te)
  obtain t e where te: "te = (t, e)" by (cases te) auto
  from first_rejection_Some [OF Some [unfolded te]] have "(t, Rejects e) \<in> set ps" by simp
  then have "\<not> (\<forall>q \<in> set ps. snd q = Fulfils ())" by force
  with Some te show ?thesis by (simp add: Promise_all_def)
qed

lemma Promise_all_Rejects:
  "Promise_all ps = Rejects e \<Longrightarrow>
     \<exists>t. (t, Rejects e) \<in> set ps \<and> (\<forall>t' e'. (t', Rejects e') \<in> set ps \<longrightarrow> t \<le> t')"
  by (auto simp: Promise_all_def split: option.splits if_splits dest!: first_rejection_Some)

lemma Promise_all_rejected:
  "(t, Rejects e) \<in> set ps \<Longrightarrow> \<exists>e'. Promise_all ps = Rejects e'"
  by (cases "first_rejection ps") (auto simp: Promise_all_def first_rejection_None)

lemma state_before_0: "state_before call cs s 0 = s"
  by (simp add: state_before_def)

lemma state_before_Suc:
  "state_before call (c # cs) s (Suc i) = state_before call cs (snd (call c s)) i"
  by (simp add: state_before_def)

lemma returned_0: "returned call (c # cs) s 0 = fst (call c s)"
  by (simp add: returned_def state_before_def)

lemma returned_Suc:
  "returned call (c # cs) s (Suc i) = returned call cs (snd (call c s)) i"
  by (simp add: returned_def state_before_Suc)

lemma map_call_spec:
  "map_call call cs s = (r, called, s') \<Longrightarrow>
     (case r of
        Inr ps \<Rightarrow>
          called = cs \<and> s' = state_before call cs s (length cs)
          \<and> map (returned call cs s) [0..<length cs] = map (\<lambda>(t, p). Returns t p) ps
      | Inl e \<Rightarrow>
          (\<exists>n ps. n < length cs \<and> called = take (Suc n) cs
             \<and> s' = state_before call cs s (Suc n)
             \<and> returned call cs s n = Throws e
             \<and> map (returned call cs s) [0..<n] = map (\<lambda>(t, p). Returns t p) ps))"
proof (induction cs arbitrary: s r called s')
  case Nil
  then show ?case by (auto simp: state_before_0)
next
  case (Cons c cs)
  obtain b s1 where c: "call c s = (b, s1)" by (cases "call c s") auto
  show ?case
  proof (cases b)
    case (Throws e)
    with Cons.prems c have r: "r = Inl e" "called = [c]" "s' = s1" by auto
    have "0 < length (c # cs) \<and> called = take (Suc 0) (c # cs)
        \<and> s' = state_before call (c # cs) s (Suc 0)
        \<and> returned call (c # cs) s 0 = Throws e
        \<and> map (returned call (c # cs) s) [0..<0] = map (\<lambda>(t, p). Returns t p) []"
      using r c Throws by (simp add: state_before_Suc state_before_0 returned_0)
    then have "\<exists>n ps. n < length (c # cs) \<and> called = take (Suc n) (c # cs)
             \<and> s' = state_before call (c # cs) s (Suc n)
             \<and> returned call (c # cs) s n = Throws e
             \<and> map (returned call (c # cs) s) [0..<n] = map (\<lambda>(t, p). Returns t p) ps"
      by blast
    with r show ?thesis by simp
  next
    case (Returns t p)
    obtain r2 called2 s2 where m: "map_call call cs s1 = (r2, called2, s2)"
      by (cases "map_call call cs s1") auto
    note ih = Cons.IH [OF m]
    have s1: "snd (call c s) = s1" and b0: "returned call (c # cs) s 0 = Returns t p"
      using c Returns by (simp_all add: returned_0)
    show ?thesis
    proof (cases r2)
      case (Inr ps)
      with Cons.prems c Returns m have r: "r = Inr ((t, p) # ps)" "called = c # called2" "s' = s2"
        by auto
      from ih Inr have i: "called2 = cs" "s2 = state_before call cs s1 (length cs)"
          "map (returned call cs s1) [0..<length cs] = map (\<lambda>(t, p). Returns t p) ps"
        by auto
      have "map (returned call (c # cs) s) [0..<length (c # cs)] =
            map (\<lambda>(t, p). Returns t p) ((t, p) # ps)"
        using i(3) b0 s1 by (simp add: map_upt_Suc returned_Suc del: upt_Suc)
      with r i s1 show ?thesis by (simp add: state_before_Suc)
    next
      case (Inl e)
      with Cons.prems c Returns m have r: "r = Inl e" "called = c # called2" "s' = s2"
        by auto
      from ih Inl obtain n ps where i: "n < length cs" "called2 = take (Suc n) cs"
          "s2 = state_before call cs s1 (Suc n)" "returned call cs s1 n = Throws e"
          "map (returned call cs s1) [0..<n] = map (\<lambda>(t, p). Returns t p) ps"
        by auto
      have "map (returned call (c # cs) s) [0..<Suc n] =
            map (\<lambda>(t, p). Returns t p) ((t, p) # ps)"
        using i(5) b0 s1 by (simp add: map_upt_Suc returned_Suc del: upt_Suc)
      with i r s1 have "Suc n < length (c # cs) \<and> called = take (Suc (Suc n)) (c # cs)
             \<and> s' = state_before call (c # cs) s (Suc (Suc n))
             \<and> returned call (c # cs) s (Suc n) = Throws e
             \<and> map (returned call (c # cs) s) [0..<Suc n] = map (\<lambda>(t, p). Returns t p) ((t, p) # ps)"
        by (simp add: state_before_Suc returned_Suc)
      then have "\<exists>n ps. n < length (c # cs) \<and> called = take (Suc n) (c # cs)
             \<and> s' = state_before call (c # cs) s (Suc n)
             \<and> returned call (c # cs) s n = Throws e
             \<and> map (returned call (c # cs) s) [0..<n] = map (\<lambda>(t, p). Returns t p) ps"
        by blast
      with r show ?thesis by simp
    qed
  qed
qed

lemma map_Returns_nth:
  "map f [0..<n] = map (\<lambda>(t, p). Returns t p) ps \<Longrightarrow> i < n \<Longrightarrow> \<exists>t q. f i = Returns t q"
proof -
  assume m: "map f [0..<n] = map (\<lambda>(t, p). Returns t p) ps" and i: "i < n"
  from m have l: "length ps = n" by (metis length_map length_upt diff_zero)
  from m i l have "f i = (\<lambda>(t, p). Returns t p) (ps ! i)"
    by (metis add_0 nth_map nth_upt length_map)
  then show ?thesis by (cases "ps ! i") auto
qed

text \<open>
  C5, as the code has it. \<open>doCleanup\<close> calls the registered functions in the order of
  their registration, each in the state that the one before it left, and each at most
  once: the functions called are a beginning of the registry, and the state afterwards
  is the one these calls leave. When no call throws, all of them are called, and the
  promise that \<open>doCleanup\<close> returns is that of \<open>Promise.all\<close> on the promises that the
  calls returned: it is fulfilled exactly when all of them are, and it is rejected as
  soon as one of them is, with the reason of the earliest rejection, also while others
  are still pending. \<open>doCleanup\<close> throws exactly when a call throws, that is at the
  first call that does, and then the functions after that one are not called.
\<close>

theorem doCleanup_calls:
  "doCleanup call cs s = (res, called, s') \<Longrightarrow>
     (\<exists>n \<le> length cs. called = take n cs \<and> s' = state_before call cs s n)
     \<and> (\<forall>p. res = Settles p \<longrightarrow>
           called = cs
           \<and> (\<exists>ps. map (returned call cs s) [0..<length cs] = map (\<lambda>(t, q). Returns t q) ps
                 \<and> p = Promise_all ps
                 \<and> (p = Fulfils () \<longleftrightarrow> (\<forall>q \<in> set ps. snd q = Fulfils ()))
                 \<and> ((\<exists>e. p = Rejects e) \<longleftrightarrow> (\<exists>t e. (t, Rejects e) \<in> set ps))
                 \<and> (\<forall>e. p = Rejects e \<longrightarrow>
                       (\<exists>t. (t, Rejects e) \<in> set ps
                          \<and> (\<forall>t' e'. (t', Rejects e') \<in> set ps \<longrightarrow> t \<le> t')))))
     \<and> (\<forall>e. res = Threw e \<longrightarrow>
           (\<exists>n < length cs. called = take (Suc n) cs \<and> returned call cs s n = Throws e
              \<and> (\<forall>i < n. \<exists>t q. returned call cs s i = Returns t q)))
     \<and> ((\<forall>i < length cs. \<exists>t q. returned call cs s i = Returns t q) \<longrightarrow> (\<exists>p. res = Settles p))"
proof -
  assume run: "doCleanup call cs s = (res, called, s')"
  obtain r where m: "map_call call cs s = (r, called, s')"
    using run by (auto simp: doCleanup_def split: prod.splits sum.splits)
  note c = map_call_spec [OF m]
  show ?thesis
  proof (cases r)
    case (Inl e)
    with run m have res: "res = Threw e" by (simp add: doCleanup_def)
    from c Inl obtain n ps where n: "n < length cs" "called = take (Suc n) cs"
        "s' = state_before call cs s (Suc n)" "returned call cs s n = Throws e"
        "map (returned call cs s) [0..<n] = map (\<lambda>(t, p). Returns t p) ps"
      by auto
    have early: "\<forall>i < n. \<exists>t q. returned call cs s i = Returns t q"
      using map_Returns_nth [OF n(5)] by blast
    have 1: "\<exists>k \<le> length cs. called = take k cs \<and> s' = state_before call cs s k"
      using n by (intro exI [of _ "Suc n"]) simp
    have 3: "\<exists>k < length cs. called = take (Suc k) cs \<and> returned call cs s k = Throws e
              \<and> (\<forall>i < k. \<exists>t q. returned call cs s i = Returns t q)"
      using n early by blast
    have 4: "\<not> (\<forall>i < length cs. \<exists>t q. returned call cs s i = Returns t q)"
      using n(1,4) by (metis behaviour.distinct(1))
    from res 1 3 4 show ?thesis by simp
  next
    case (Inr ps)
    with run m have res: "res = Settles (Promise_all ps)" by (simp add: doCleanup_def)
    from c Inr have cs: "called = cs" "s' = state_before call cs s (length cs)"
        "map (returned call cs s) [0..<length cs] = map (\<lambda>(t, p). Returns t p) ps"
      by auto
    have rej: "(\<exists>e. Promise_all ps = Rejects e) \<longleftrightarrow> (\<exists>t e. (t, Rejects e) \<in> set ps)"
      using Promise_all_Rejects Promise_all_rejected by blast
    have 1: "\<exists>k \<le> length cs. called = take k cs \<and> s' = state_before call cs s k"
      using cs by (intro exI [of _ "length cs"]) simp
    have 2: "\<exists>ps'. map (returned call cs s) [0..<length cs] = map (\<lambda>(t, q). Returns t q) ps'
                 \<and> Promise_all ps = Promise_all ps'
                 \<and> (Promise_all ps = Fulfils () \<longleftrightarrow> (\<forall>q \<in> set ps'. snd q = Fulfils ()))
                 \<and> ((\<exists>e. Promise_all ps = Rejects e) \<longleftrightarrow> (\<exists>t e. (t, Rejects e) \<in> set ps'))
                 \<and> (\<forall>e. Promise_all ps = Rejects e \<longrightarrow>
                       (\<exists>t. (t, Rejects e) \<in> set ps'
                          \<and> (\<forall>t' e'. (t', Rejects e') \<in> set ps' \<longrightarrow> t \<le> t')))"
      using cs(3) rej Promise_all_Fulfils [of ps] Promise_all_Rejects [of ps]
      by (intro exI [of _ ps]) blast
    from res cs(1) 1 2 show ?thesis by simp
  qed
qed

lemma doCleanup_example:
  "doCleanup call_behaviour [Returns 3 (Fulfils ()), Returns 1 (Fulfils ())] 0 =
     (Settles (Fulfils ()), [Returns 3 (Fulfils ()), Returns 1 (Fulfils ())], 2)"
  by (simp add: doCleanup_def call_behaviour_def Promise_all_def)

theorem doCleanup_calls_witness:
  "(\<exists>n \<le> length [Returns 3 (Fulfils ()), Returns 1 (Fulfils ())].
       [Returns 3 (Fulfils ()), Returns 1 (Fulfils ())] =
         take n [Returns 3 (Fulfils ()), Returns 1 (Fulfils ())]
       \<and> (2::nat) = state_before call_behaviour [Returns 3 (Fulfils ()), Returns 1 (Fulfils ())] 0 n)
   \<and> (\<exists>ps. map (returned call_behaviour [Returns 3 (Fulfils ()), Returns 1 (Fulfils ())] 0)
               [0..<length [Returns 3 (Fulfils ()), Returns 1 (Fulfils ())]] =
             map (\<lambda>(t, q). Returns t q) ps
           \<and> Fulfils () = Promise_all ps)"
proof -
  note t = doCleanup_calls [OF doCleanup_example]
  from t have a: "\<exists>n \<le> length [Returns 3 (Fulfils ()), Returns 1 (Fulfils ())].
       [Returns 3 (Fulfils ()), Returns 1 (Fulfils ())] =
         take n [Returns 3 (Fulfils ()), Returns 1 (Fulfils ())]
       \<and> (2::nat) = state_before call_behaviour [Returns 3 (Fulfils ()), Returns 1 (Fulfils ())] 0 n"
    by (rule conjunct1)
  from t have "\<forall>p. Settles (Fulfils ()) = Settles p \<longrightarrow>
           [Returns 3 (Fulfils ()), Returns 1 (Fulfils ())] = [Returns 3 (Fulfils ()), Returns 1 (Fulfils ())]
           \<and> (\<exists>ps. map (returned call_behaviour [Returns 3 (Fulfils ()), Returns 1 (Fulfils ())] 0)
                     [0..<length [Returns 3 (Fulfils ()), Returns 1 (Fulfils ())]] =
                   map (\<lambda>(t, q). Returns t q) ps
                 \<and> p = Promise_all ps
                 \<and> (p = Fulfils () \<longleftrightarrow> (\<forall>q \<in> set ps. snd q = Fulfils ()))
                 \<and> ((\<exists>e. p = Rejects e) \<longleftrightarrow> (\<exists>t e. (t, Rejects e) \<in> set ps))
                 \<and> (\<forall>e. p = Rejects e \<longrightarrow>
                       (\<exists>t. (t, Rejects e) \<in> set ps
                          \<and> (\<forall>t' e'. (t', Rejects e') \<in> set ps \<longrightarrow> t \<le> t'))))"
    by (rule conjunct2 [THEN conjunct1])
  then have b: "\<exists>ps. map (returned call_behaviour [Returns 3 (Fulfils ()), Returns 1 (Fulfils ())] 0)
                     [0..<length [Returns 3 (Fulfils ()), Returns 1 (Fulfils ())]] =
                   map (\<lambda>(t, q). Returns t q) ps
                 \<and> Fulfils () = Promise_all ps"
    by blast
  from a b show ?thesis by (rule conjI)
qed

text \<open>
  C5 as it is stated fails twice. A function whose promise is rejected makes
  \<open>doCleanup\<close> reject, and that while the promise of another function has not settled;
  and a function that throws makes \<open>doCleanup\<close> throw, with the function after it
  never called.
\<close>

theorem doCleanup_rejects_counterexample:
  "doCleanup call_behaviour [Returns 1 (Rejects boom), Returns 0 Never] 0 =
     (Settles (Rejects boom), [Returns 1 (Rejects boom), Returns 0 Never], 2)
   \<and> doCleanup call_behaviour [Throws boom, Returns 0 (Fulfils ())] 0 =
       (Threw boom, [Throws boom], 1)"
  by (simp add: doCleanup_def call_behaviour_def Promise_all_def)

subsection \<open>Port resolution\<close>

lemma initPort_never_rejects: "fst (initPort E st) \<noteq> Rej e"
  by (auto simp: initPort_def await_def Let_def
      split: prod.splits listen_event.splits res.splits settle.splits if_splits)

text \<open>
  C7, as the code has it. For a port other than 0, \<open>initPort\<close> resolves at once and
  leaves the state as it is: no server is created. For the port 0 it creates a server
  and listens on port 0; when the \<open>listening\<close> event fires, it stores the port that
  the server reports in the flags, closes the server and resolves. Its promise is never
  rejected. When no port can be allocated and the server emits \<open>error\<close>, the program
  has no listener for it: the error is an uncaught exception, the promise stays pending,
  and the run ends without \<open>handleError\<close>. When no event fires at all, the promise
  stays pending.
\<close>

theorem initPort_resolves:
  "(port (flags st) \<noteq> 0 \<longrightarrow> initPort E st = (Ok (), st))
   \<and> (port (flags st) = 0 \<and> server_listen E (world st) = (Listening p, w) \<and> sigint st \<noteq> Some 0 \<longrightarrow>
        initPort E st =
          (Ok (),
           st\<lparr>world := w, flags := (flags st)\<lparr>port := p\<rparr>,
              trace := trace st @ [CreateServer, Start Listen, End Listen, CloseServer],
              sigint := map_option (\<lambda>k. k - 1) (sigint st)\<rparr>))
   \<and> (port (flags st) = 0 \<and> server_listen E (world st) = (ErrorEvent e, w) \<and> sigint st \<noteq> Some 0 \<longrightarrow>
        initPort E st =
          (Thrown e, st\<lparr>world := w, trace := trace st @ [CreateServer, Start Listen], sigint := None\<rparr>)
        \<and> run E st =
          (Uncaught e, st\<lparr>world := w, trace := trace st @ [CreateServer, Start Listen], sigint := None\<rparr>))
   \<and> (port (flags st) = 0 \<and> server_listen E (world st) = (NoEvent, w) \<and> sigint st = None \<longrightarrow>
        initPort E st =
          (Pend, st\<lparr>world := w, trace := trace st @ [CreateServer, Start Listen]\<rparr>))
   \<and> (\<forall>e'. fst (initPort E st) \<noteq> Rej e')"
  using initPort_never_rejects [of E st]
  by (auto simp: run_def initPort_def await_def Let_def)

theorem initPort_resolves_witness:
  "initPort E_ok s0 = (Ok (), s0)
   \<and> initPort E_ok s_port0 =
       (Ok (),
        s_port0\<lparr>world := 1, flags := example_flags\<lparr>port := 40123\<rparr>,
           trace := [CreateServer, Start Listen, End Listen, CloseServer]\<rparr>)
   \<and> initPort E_refuse s_port0 =
       (Thrown no_port, s_port0\<lparr>world := 1, trace := [CreateServer, Start Listen]\<rparr>)"
  using initPort_resolves [of s0 E_ok 0 0 no_port]
    initPort_resolves [of s_port0 E_ok 40123 1 no_port]
    initPort_resolves [of s_port0 E_refuse 0 1 no_port]
  by (simp add: s_port0_def s0_def example_flags_def E_ok_def E_refuse_def)

text \<open>
  C7 as it is stated fails: when no port can be allocated, the failure is not brought
  to \<open>handleError\<close> as a runtime error. The promise of \<open>initPort\<close> is not rejected, the
  program prints nothing and does not call \<open>process.exit\<close>: the error that the server
  emits is left to the runtime as an uncaught exception.
\<close>

theorem initPort_failure_counterexample:
  "initPort E_refuse s_port0 =
     (Thrown no_port, s_port0\<lparr>world := 1, trace := [CreateServer, Start Listen]\<rparr>)
   \<and> run E_refuse s_port0 =
       (Uncaught no_port, s_port0\<lparr>world := 1, trace := [CreateServer, Start Listen]\<rparr>)
   \<and> fst (run E_refuse s_port0) \<noteq> fst (handleError no_port s_port0)"
  by (simp add: run_def initPort_def await_def Let_def s_port0_def s0_def example_flags_def
      E_ok_def E_refuse_def handleError_def showRuntimeError_def showConnectionError_def
      showProtocolTimeoutError_def no_port_def)

subsection \<open>The race with the interrupt\<close>




lemma initPort_no_listener:
  "initPort E st = (r, st1) \<Longrightarrow> OnSigint \<notin> set (trace st) \<Longrightarrow> OnSigint \<notin> set (trace st1)"
  by (auto simp: initPort_def await_def Let_def
      split: prod.splits listen_event.splits res.splits settle.splits if_splits)

lemma await_no_listener:
  "await opn f st = (r, st1) \<Longrightarrow> OnSigint \<in> set (trace st1) \<Longrightarrow> OnSigint \<in> set (trace st)"
  by (drule await_trace) (auto split: if_splits)

lemma fire_no_listener:
  "OnSigint \<in> set (trace (fire opn f st)) \<Longrightarrow> OnSigint \<in> set (trace st)"
  by (simp add: fire_trace)

lemma lighthouseRun_no_listener:
  "lighthouseRun E addresses st = (r, st') \<Longrightarrow> OnSigint \<in> set (trace st') \<Longrightarrow>
     OnSigint \<in> set (trace st)"
proof (induction addresses arbitrary: st r st')
  case Nil
  then show ?case by simp
next
  case (Cons address rest)
  show ?case
  proof (cases "address = []")
    case True
    with Cons.prems show ?thesis by (auto simp: Let_def)
  next
    case False
    with Cons.prems show ?thesis
      by (auto simp: Let_def split: prod.splits res.splits if_splits
          dest!: Cons.IH fire_no_listener await_no_listener)
  qed
qed

lemma handleError_no_listener:
  "handleError e st = (out, st1) \<Longrightarrow> OnSigint \<in> set (trace st1) \<Longrightarrow> OnSigint \<in> set (trace st)"
  by (auto simp: handleError_def showConnectionError_def showProtocolTimeoutError_def
      showRuntimeError_def split: if_splits option.splits)

lemma run_skip:
  "skipAutolaunch (flags st) \<Longrightarrow>
     fst (run E st) \<noteq> Exited ERROR_EXIT_CODE
     \<and> (OnSigint \<in> set (trace (snd (run E st))) \<longrightarrow> OnSigint \<in> set (trace st))"
proof -
  assume skip: "skipAutolaunch (flags st)"
  obtain r st1 where i: "initPort E st = (r, st1)" by (cases "initPort E st") auto
  from initPort_flags [OF i] skip have skip1: "skipAutolaunch (flags st1)" by auto
  have n1: "OnSigint \<in> set (trace st1) \<Longrightarrow> OnSigint \<in> set (trace st)"
    using initPort_no_listener [OF i] by blast
  obtain r2 st2 where l: "lighthouseRun E (urls (flags st1)) st1 = (r2, st2)"
    by (cases "lighthouseRun E (urls (flags st1)) st1") auto
  have n2: "OnSigint \<in> set (trace st2) \<Longrightarrow> OnSigint \<in> set (trace st)"
    using lighthouseRun_no_listener [OF l] n1 by blast
  show ?thesis
  proof (cases r)
    case (Ok u)
    show ?thesis
    proof (cases r2)
      case Undefined
      with i l Ok skip1 n2 show ?thesis by (simp add: run_def)
    next
      case (Promise r3)
      show ?thesis
      proof (cases r3)
        case (Rej e)
        obtain out st3 where h: "handleError e st2 = (out, st3)"
          by (cases "handleError e st2") auto
        from handleError_exits [OF h] have "out \<noteq> Exited ERROR_EXIT_CODE"
          by (auto simp: ERROR_EXIT_CODE_def)
        moreover have "OnSigint \<in> set (trace st3) \<Longrightarrow> OnSigint \<in> set (trace st)"
          using handleError_no_listener [OF h] n2 by blast
        ultimately show ?thesis
          using i l Ok skip1 Promise Rej h by (simp add: run_def)
      qed (use i l Ok skip1 n2 Promise in \<open>simp_all add: run_def\<close>)
    qed
  qed (use i n1 in \<open>simp_all add: run_def\<close>)
qed

lemma map_call_closure_eq:
  "map_call (call_closure E) cs st =
     (Inr (fst (kill_promises E (length cs) (world st))), cs,
      st\<lparr>world := snd (kill_promises E (length cs) (world st)),
         trace := trace st @ replicate (length cs) (Start LauncherKill)\<rparr>)"
proof (induction cs arbitrary: st)
  case Nil
  show ?case by simp
next
  case (Cons c cs)
  obtain p w1 where k: "launcher_kill E (world st) = (p, w1)"
    by (cases "launcher_kill E (world st)") auto
  obtain ps w2 where kp: "kill_promises E (length cs) w1 = (ps, w2)"
    by (cases "kill_promises E (length cs) w1") auto
  show ?case
    using k kp Cons.IH [of "st\<lparr>world := w1, trace := trace st @ [Start LauncherKill]\<rparr>"]
    by (cases c) (simp add: replicate_append_same)
qed

lemma sigint_cleanup_eq:
  "sigint_cleanup E st =
     (let ps = fst (kill_promises E (length (fns st)) (world st));
          st1 = st\<lparr>world := snd (kill_promises E (length (fns st)) (world st)),
                   trace := trace st @ replicate (length (fns st)) (Start LauncherKill)\<rparr>
      in case Promise_all ps of
           Fulfils u \<Rightarrow> (Exited ERROR_EXIT_CODE, st1\<lparr>trace := trace st1 @ [Exit ERROR_EXIT_CODE]\<rparr>)
         | Rejects err \<Rightarrow>
             (Exited ERROR_EXIT_CODE,
              st1\<lparr>trace := trace st1 @
                [ConsoleError [V err],
                 ConsoleError [case stack_of err of None \<Rightarrow> Undef | Some s \<Rightarrow> S s],
                 Exit ERROR_EXIT_CODE]\<rparr>)
         | Never \<Rightarrow> (Hangs, st1))"
  by (simp add: sigint_cleanup_def doCleanup_def map_call_closure_eq Let_def split: settle.splits)

lemma sigint_cleanup_outcome:
  "fst (sigint_cleanup E st) =
     (if Promise_all (fst (kill_promises E (length (fns st)) (world st))) = Never then Hangs
      else Exited ERROR_EXIT_CODE)"
  by (simp add: sigint_cleanup_eq Let_def split: settle.splits)

lemmas run_defs =
  run_def initPort_def launchChromeAndRun_def debuggerReadyOrRun_def register_def
  sigint_cleanup_def doCleanup_def Promise_all_def handleError_def showRuntimeError_def
  showConnectionError_def showProtocolTimeoutError_def RUNTIME_ERROR_CODE_def
  PROTOCOL_TIMEOUT_EXIT_CODE_def ERROR_EXIT_CODE_def SIGINT_def


lemma launch_interrupted_example:
  "launchChromeAndRun E_ok (s_int\<lparr>trace := trace s_int @ [OnSigint]\<rparr>) =
     (Intr,
      s_int\<lparr>world := 2, flags := example_flags\<lparr>urls := [''b'']\<rparr>, fns := [KillLauncher],
            trace := [OnSigint, NewLauncher 9222 True, Register,
                      Start IsDebuggerReady, End IsDebuggerReady, Start (Lighthouse ''a'')],
            sigint := None\<rparr>)"
  by (simp add: run_defs example_defs s_int_def)

lemma initPort_example: "initPort E_ok s_int = (Ok (), s_int)"
  by (simp add: run_defs example_defs s_int_def)

lemma launch_interrupted_never_example:
  "launchChromeAndRun E_kill_never (s_int\<lparr>trace := trace s_int @ [OnSigint]\<rparr>) =
     (Intr,
      s_int\<lparr>world := 2, flags := example_flags\<lparr>urls := [''b'']\<rparr>, fns := [KillLauncher],
            trace := [OnSigint, NewLauncher 9222 True, Register,
                      Start IsDebuggerReady, End IsDebuggerReady, Start (Lighthouse ''a'')],
            sigint := None\<rparr>)"
  by (simp add: run_defs example_defs s_int_def E_kill_never_def)

lemma initPort_never_example: "initPort E_kill_never s_int = (Ok (), s_int)"
  by (simp add: run_defs example_defs s_int_def E_kill_never_def)





text \<open>
  C2 fails on the code at this input: the browser launcher is created and its
  \<open>kill\<close> registered for cleanup, the only job fails, and the run exits with code 1
  through \<open>handleError\<close> without any call of \<open>launcher.kill\<close>: neither the registry
  is run nor the launcher killed.
\<close>

theorem cleanup_not_run_on_error:
  "run E_ok s_bad =
     (Exited 1,
      s_bad\<lparr>world := 2, flags := example_flags\<lparr>urls := []\<rparr>, fns := [KillLauncher],
            trace := [OnSigint, NewLauncher 9222 True, Register,
                      Start IsDebuggerReady, End IsDebuggerReady,
                      Start (Lighthouse ''bad''), End (Lighthouse ''bad''),
                      ConsoleError [S ''Runtime error encountered:'', V boom],
                      ConsoleError [S ''at job''], Exit 1]\<rparr>)
   \<and> Start LauncherKill \<notin> set (trace (snd (run E_ok s_bad)))"
  by (simp add: run_defs example_defs s_bad_def)

subsection \<open>Exit codes\<close>

lemma handleError_code:
  "fst (handleError e st) = Exited 1 \<or> fst (handleError e st) = Exited 67"
  by (simp add: handleError_def showConnectionError_def
        showProtocolTimeoutError_def showRuntimeError_def RUNTIME_ERROR_CODE_def
        PROTOCOL_TIMEOUT_EXIT_CODE_def)

lemma handleError_not_130: "fst (handleError e st) \<noteq> Exited 130"
  using handleError_code [of e st] by auto

lemma run_exit_130:
  "fst (run E st) = Exited 130 \<longleftrightarrow>
     \<not> skipAutolaunch (flags st)
     \<and> (\<exists>u st1 r st2. initPort E st = (Ok u, st1)
          \<and> launchChromeAndRun E (st1\<lparr>trace := trace st1 @ [OnSigint]\<rparr>) = (r, st2)
          \<and> (r = Intr \<or> r = Rej (Str SIGINT))
          \<and> Promise_all (fst (kill_promises E (length (fns st2)) (world st2))) \<noteq> Never)"
proof (cases "initPort E st")
  case (Pair r0 st1)
  from initPort_flags [OF Pair] have sk: "skipAutolaunch (flags st1) = skipAutolaunch (flags st)"
    by auto
  show ?thesis
  proof (cases "skipAutolaunch (flags st)")
    case True
    with run_skip [OF True, of E] show ?thesis by (simp add: ERROR_EXIT_CODE_def)
  next
    case False
    obtain r st2 where l: "launchChromeAndRun E (st1\<lparr>trace := trace st1 @ [OnSigint]\<rparr>) = (r, st2)"
      by (cases "launchChromeAndRun E (st1\<lparr>trace := trace st1 @ [OnSigint]\<rparr>)") auto
    show ?thesis
      using Pair False sk l handleError_not_130
      by (cases r0; cases r)
         (auto simp: run_def sigint_cleanup_outcome ERROR_EXIT_CODE_def)
  qed
qed

text \<open>
  C6. \<open>handleError\<close> puts every failure into exactly one category, tested in a fixed
  order: the code \<open>ECONNREFUSED\<close> gives the connection error (exit code 1) whatever else
  the failure carries, otherwise the code \<open>CRI_TIMEOUT\<close> gives the protocol timeout
  (exit code 67), and anything else the runtime error (exit code 1). The handler of the
  interrupt exits with 130, and with no other code, as soon as the promise of the cleanup
  has settled; a run exits with 130 exactly when that handler is taken and the cleanup
  settles, so 130 is the code of the interrupted outcome and of no other. A run calls
  \<open>process.exit\<close> at most once, as its last event, and only with one of the codes 1, 67
  and 130.
\<close>

theorem handleError_exit_codes:
  "handleError err st =
     (case classify_spec err of
        ConnectionRefused \<Rightarrow> showConnectionError st
      | ProtocolTimeout \<Rightarrow> showProtocolTimeoutError st
      | RuntimeError \<Rightarrow> showRuntimeError err st)
   \<and> fst (handleError err st) = Exited (exit_code_spec (classify_spec err))
   \<and> fst (sigint_cleanup E st) =
       (if Promise_all (fst (kill_promises E (length (fns st)) (world st))) = Never
        then Hangs else Exited 130)
   \<and> exits (trace (snd (sigint_cleanup E st))) =
       exits (trace st) @
       (if Promise_all (fst (kill_promises E (length (fns st)) (world st))) = Never
        then [] else [130])
   \<and> (\<forall>c. fst (sigint_cleanup E st) = Exited c \<longrightarrow> c = 130)
   \<and> (fst (run E st) = Exited 130 \<longleftrightarrow>
        \<not> skipAutolaunch (flags st)
        \<and> (\<exists>u st1 r st2. initPort E st = (Ok u, st1)
             \<and> launchChromeAndRun E (st1\<lparr>trace := trace st1 @ [OnSigint]\<rparr>) = (r, st2)
             \<and> (r = Intr \<or> r = Rej (Str SIGINT))
             \<and> Promise_all (fst (kill_promises E (length (fns st2)) (world st2))) \<noteq> Never))
   \<and> exits (trace (snd (run E st))) =
       exits (trace st) @ (case fst (run E st) of Exited c \<Rightarrow> [c] | _ \<Rightarrow> [])
   \<and> (\<forall>c. fst (run E st) = Exited c \<longrightarrow> c \<in> {1, 67, 130})"
proof (intro conjI)
  show "handleError err st =
     (case classify_spec err of
        ConnectionRefused \<Rightarrow> showConnectionError st
      | ProtocolTimeout \<Rightarrow> showProtocolTimeoutError st
      | RuntimeError \<Rightarrow> showRuntimeError err st)"
    by (simp add: handleError_def classify_spec_def)
  show "fst (handleError err st) = Exited (exit_code_spec (classify_spec err))"
    by (simp add: handleError_def classify_spec_def showConnectionError_def
        showProtocolTimeoutError_def showRuntimeError_def RUNTIME_ERROR_CODE_def
        PROTOCOL_TIMEOUT_EXIT_CODE_def)
  show o: "fst (sigint_cleanup E st) =
       (if Promise_all (fst (kill_promises E (length (fns st)) (world st))) = Never
        then Hangs else Exited 130)"
    by (simp add: sigint_cleanup_outcome ERROR_EXIT_CODE_def)
  show "exits (trace (snd (sigint_cleanup E st))) =
       exits (trace st) @
       (if Promise_all (fst (kill_promises E (length (fns st)) (world st))) = Never
        then [] else [130])"
    using sigint_cleanup_exits [OF surjective_pairing, of E st] o
    by (simp split: if_splits)
  show "\<forall>c. fst (sigint_cleanup E st) = Exited c \<longrightarrow> c = 130"
    using sigint_cleanup_exits [of E st "fst (sigint_cleanup E st)" "snd (sigint_cleanup E st)"]
    by simp
  show "fst (run E st) = Exited 130 \<longleftrightarrow>
        \<not> skipAutolaunch (flags st)
        \<and> (\<exists>u st1 r st2. initPort E st = (Ok u, st1)
             \<and> launchChromeAndRun E (st1\<lparr>trace := trace st1 @ [OnSigint]\<rparr>) = (r, st2)
             \<and> (r = Intr \<or> r = Rej (Str SIGINT))
             \<and> Promise_all (fst (kill_promises E (length (fns st2)) (world st2))) \<noteq> Never)"
    by (rule run_exit_130)
  show "exits (trace (snd (run E st))) =
       exits (trace st) @ (case fst (run E st) of Exited c \<Rightarrow> [c] | _ \<Rightarrow> [])"
    using run_exits [of E st "fst (run E st)" "snd (run E st)"] by simp
  show "\<forall>c. fst (run E st) = Exited c \<longrightarrow> c \<in> {1, 67, 130}"
    using run_exits [of E st "fst (run E st)" "snd (run E st)"] by auto
qed

lemma run_timeout_example: "fst (run E_timeout s0) = Exited 67"
  by (simp add: run_def initPort_def launchChromeAndRun_def debuggerReadyOrRun_def await_def
      register_def handleError_def showProtocolTimeoutError_def PROTOCOL_TIMEOUT_EXIT_CODE_def
      E_timeout_def E_ok_def s0_def example_flags_def refused_def timed_out_def SIGINT_def)

theorem handleError_exit_codes_witness:
  "fst (run E_timeout s0) = Exited 67
   \<and> (67::nat) \<in> {1, 67, 130}
   \<and> exits (trace (snd (run E_timeout s0))) = [67]
   \<and> fst (handleError refused s0) = Exited 1
   \<and> fst (handleError timed_out s0) = Exited 67
   \<and> fst (handleError boom s0) = Exited 1
   \<and> fst (run E_ok s_int) = Exited 130
   \<and> exits (trace (snd (run E_ok s_int))) = [130]
   \<and> fst (sigint_cleanup E_ok (s0\<lparr>fns := [KillLauncher]\<rparr>)) = Exited 130
   \<and> fst (sigint_cleanup E_kill_never (s0\<lparr>fns := [KillLauncher]\<rparr>)) = Hangs
   \<and> fst (run E_kill_never s_int) \<noteq> Exited 130"
proof -
  have a1: "fst (handleError refused s0) = Exited 1
     \<and> fst (handleError timed_out s0) = Exited 67
     \<and> fst (handleError boom s0) = Exited 1"
    using handleError_exit_codes [of refused s0 E_timeout, THEN conjunct2, THEN conjunct1]
      handleError_exit_codes [of timed_out s0 E_timeout, THEN conjunct2, THEN conjunct1]
      handleError_exit_codes [of boom s0 E_timeout, THEN conjunct2, THEN conjunct1]
    by (simp add: classify_spec_def refused_def timed_out_def boom_def)
  have a2: "fst (run E_timeout s0) = Exited 67
     \<and> (67::nat) \<in> {1, 67, 130}
     \<and> exits (trace (snd (run E_timeout s0))) = [67]"
    using handleError_exit_codes [of boom s0 E_timeout, THEN conjunct2, THEN conjunct2,
        THEN conjunct2, THEN conjunct2, THEN conjunct2, THEN conjunct2, THEN conjunct1]
      run_timeout_example
    by (simp add: s0_def)
  have ns: "\<not> skipAutolaunch (flags s_int)" by (simp add: s_int_def s0_def example_flags_def)
  have p: "Promise_all (fst (kill_promises E_ok (length [KillLauncher]) 2)) \<noteq> Never"
    by (simp add: E_ok_def Promise_all_def)
  have b: "fst (run E_ok s_int) = Exited 130"
    using handleError_exit_codes [of boom s_int E_ok, THEN conjunct2, THEN conjunct2,
        THEN conjunct2, THEN conjunct2, THEN conjunct2, THEN conjunct1, THEN iffD2,
        OF conjI [OF ns exI [of _ "()"]], OF exI [of _ s_int], OF exI [of _ Intr], OF exI,
        OF conjI [OF initPort_example
                    conjI [OF launch_interrupted_example conjI [OF disjI1 [OF refl]]]]]
      p
    by simp
  have c: "exits (trace (snd (run E_ok s_int))) = [130]"
    using handleError_exit_codes [of boom s_int E_ok, THEN conjunct2, THEN conjunct2,
        THEN conjunct2, THEN conjunct2, THEN conjunct2, THEN conjunct2, THEN conjunct1] b
    by (simp add: s_int_def s0_def)
  have d: "fst (sigint_cleanup E_ok (s0\<lparr>fns := [KillLauncher]\<rparr>)) = Exited 130"
    using handleError_exit_codes [of boom "s0\<lparr>fns := [KillLauncher]\<rparr>" E_ok,
        THEN conjunct2, THEN conjunct2, THEN conjunct1]
    by (simp add: s0_def E_ok_def Promise_all_def)
  have e: "fst (sigint_cleanup E_kill_never (s0\<lparr>fns := [KillLauncher]\<rparr>)) = Hangs"
    using handleError_exit_codes [of boom "s0\<lparr>fns := [KillLauncher]\<rparr>" E_kill_never,
        THEN conjunct2, THEN conjunct2, THEN conjunct1]
    by (simp add: s0_def E_kill_never_def E_ok_def Promise_all_def)
  have f: "fst (run E_kill_never s_int) \<noteq> Exited 130"
  proof
    assume "fst (run E_kill_never s_int) = Exited 130"
    from handleError_exit_codes [of boom s_int E_kill_never, THEN conjunct2, THEN conjunct2,
        THEN conjunct2, THEN conjunct2, THEN conjunct2, THEN conjunct1, THEN iffD1, OF this]
    obtain u st1 r st2 where i: "initPort E_kill_never s_int = (Ok u, st1)"
      and l: "launchChromeAndRun E_kill_never (st1\<lparr>trace := trace st1 @ [OnSigint]\<rparr>) = (r, st2)"
      and q: "Promise_all (fst (kill_promises E_kill_never (length (fns st2)) (world st2))) \<noteq> Never"
      by blast
    from i have "st1 = s_int" by (simp add: initPort_never_example)
    with l have "st2 = s_int\<lparr>world := 2, flags := example_flags\<lparr>urls := [''b'']\<rparr>,
            fns := [KillLauncher],
            trace := [OnSigint, NewLauncher 9222 True, Register,
                      Start IsDebuggerReady, End IsDebuggerReady, Start (Lighthouse ''a'')],
            sigint := None\<rparr>"
      by (simp add: launch_interrupted_never_example)
    with q show False by (simp add: E_kill_never_def E_ok_def Promise_all_def)
  qed
  from a1 a2 b c d e f show ?thesis by blast
qed

end
